theory Spec2Isabelle
  imports Complex_Main "HOL-Library.AList" "HOL-Library.Multiset" "HOL-Library.Product_Lexorder"
begin

section \<open>Player development: ratings progression and potential estimation\<close>

text \<open>
  A shallow embedding of \<^verbatim>\<open>bootstrapPot\<close> and \<^verbatim>\<open>develop\<close>, the
  two functions of the player development module. The sport-specific callbacks reached through
  \<^verbatim>\<open>overrides\<close>, the random number generator, \<^verbatim>\<open>skills\<close>
  and the constant \<^verbatim>\<open>PLAYER.UNDRAFTED\<close> live in other modules; they are
  parameters of the model, collected in the record \<open>env\<close>.
\<close>

subsection \<open>Values\<close>

text \<open>
  A JavaScript value stored where the code expects a number. Overall ratings, ages and
  weights are integers; reading a key that an object does not have yields
  \<^verbatim>\<open>undefined\<close>, and arithmetic on \<^verbatim>\<open>undefined\<close> yields
  \<^verbatim>\<open>NaN\<close>.
\<close>

datatype jsnum = Num int | Undefined | NaN

datatype error =
    InvalidPosition string  \<comment> \<open>\<^verbatim>\<open>Invalid position "..." in potEstimator\<close>\<close>
  | PosRequired             \<comment> \<open>\<^verbatim>\<open>pos is required for potEstimator\<close>\<close>
  | ShouldNeverHappen       \<comment> \<open>\<^verbatim>\<open>Should never happen\<close>\<close>
  | TypeError               \<comment> \<open>a property read on \<^verbatim>\<open>undefined\<close>\<close>

text \<open>\<^verbatim>\<open>a > b\<close> on such values: false as soon as one side is not a number.\<close>

fun js_gt :: "jsnum \<Rightarrow> jsnum \<Rightarrow> bool" where
  "js_gt (Num a) (Num b) = (a > b)"
| "js_gt _ _ = False"

text \<open>
  \<^verbatim>\<open>obj[key]\<close> on an object of numbers kept as an association list in insertion
  order. (For a name that the object only inherits, JavaScript yields the inherited
  function; the model has no such value and yields \<^verbatim>\<open>undefined\<close>, which the
  code treats alike: every comparison with it is false and the arithmetic gives
  \<^verbatim>\<open>NaN\<close>.)
\<close>

definition lookup :: "(string \<times> jsnum) list \<Rightarrow> string \<Rightarrow> jsnum" where
  "lookup obj k = (case map_of obj k of None \<Rightarrow> Undefined | Some v \<Rightarrow> v)"

subsection \<open>Ratings snapshots and the store\<close>

text \<open>
  \<^verbatim>\<open>MinimalPlayerRatings\<close>: the fields that \<^verbatim>\<open>develop\<close> and
  \<^verbatim>\<open>bootstrapPot\<close> read or write, and \<open>attrs\<close> for the remaining
  sport-specific ratings that only the callbacks look at.
\<close>

record ratings =
  season :: int
  hgt :: int
  stre :: int
  ovr :: jsnum
  pot :: jsnum
  ovrs :: "(string \<times> jsnum) list"
  pots :: "(string \<times> jsnum) list"
  pos :: string
  skills :: "string list"
  attrs :: "(string \<times> int) list"

text \<open>
  Ratings objects are mutated in place and copied, so they live in a store: a reference
  is an index into the list of allocated objects.
\<close>

type_synonym heap = "ratings list"

text \<open>
  Modelled from the spec: \<^verbatim>\<open>helpers.deepCopy\<close> is not among the sources. The spec
  asks for a "deep-copy utility for a ratings snapshot (value semantics, no shared
  references post-copy)": a new object with the same contents.
\<close>

definition deepCopy :: "heap \<Rightarrow> nat \<Rightarrow> nat \<times> heap" where
  "deepCopy h a = (length h, h @ [h ! a])"

subsection \<open>The environment\<close>

text \<open>
  \<open>'g\<close> is the state of the random number generator, which
  \<^verbatim>\<open>developSeason\<close>, \<^verbatim>\<open>genWeight\<close> and \<^verbatim>\<open>random.randInt\<close>
  advance. \<^verbatim>\<open>developSeason\<close> mutates the ratings object it is given: here it maps
  the old contents to the new ones. The coaching rank is optional.
\<close>

record 'g env =
  SPORT :: string
  player_developSeason :: "ratings \<Rightarrow> int \<Rightarrow> rat option \<Rightarrow> 'g \<Rightarrow> ratings \<times> 'g"
  player_ovr :: "ratings \<Rightarrow> string option \<Rightarrow> int"
  player_pos :: "ratings \<Rightarrow> string"
  player_genWeight :: "int \<Rightarrow> int \<Rightarrow> 'g \<Rightarrow> int \<times> 'g"
  POSITIONS :: "string list"
  skills_of :: "ratings \<Rightarrow> string list"
  randInt :: "int \<Rightarrow> int \<Rightarrow> 'g \<Rightarrow> int \<times> 'g"
  UNDRAFTED :: int

subsection \<open>The regression estimator\<close>

record coeffs =
  intercept :: rat
  age_c :: rat
  ovr_c :: rat
  interaction :: rat

text \<open>
  The table of the football build. The coefficients are the decimal fractions of the
  source, and the formula is evaluated exactly over the rationals.
\<close>

definition coeffsByPos :: "(string \<times> coeffs) list" where
  "coeffsByPos =
    [(''CB'', \<lparr>intercept = 41.22339, age_c = -1.55671, ovr_c = 1.73043, interaction = -0.02711\<rparr>),
     (''DL'', \<lparr>intercept = 50.39196, age_c = -1.91082, ovr_c = 2.00579, interaction = -0.03759\<rparr>),
     (''K'', \<lparr>intercept = 35.997, age_c = -1.349, ovr_c = 1.834, interaction = -0.032\<rparr>),
     (''KR'', \<lparr>intercept = 39.62046, age_c = -1.47839, ovr_c = 1.67194, interaction = -0.02539\<rparr>),
     (''LB'', \<lparr>intercept = 36.72401, age_c = -1.37224, ovr_c = 1.91346, interaction = -0.03444\<rparr>),
     (''OL'', \<lparr>intercept = 38.22024, age_c = -1.44549, ovr_c = 2.13113, interaction = -0.04226\<rparr>),
     (''P'', \<lparr>intercept = 36.09308, age_c = -1.3511, ovr_c = 1.90802, interaction = -0.03557\<rparr>),
     (''PR'', \<lparr>intercept = 38.16013, age_c = -1.42061, ovr_c = 1.93835, interaction = -0.03559\<rparr>),
     (''QB'', \<lparr>intercept = 47.34247, age_c = -1.78499, ovr_c = 2.12059, interaction = -0.04236\<rparr>),
     (''RB'', \<lparr>intercept = 18.70945, age_c = -0.69679, ovr_c = 2.40819, interaction = -0.05307\<rparr>),
     (''S'', \<lparr>intercept = 42.84427, age_c = -1.62036, ovr_c = 1.99803, interaction = -0.03686\<rparr>),
     (''TE'', \<lparr>intercept = 28.15031, age_c = -1.05288, ovr_c = 2.27735, interaction = -0.04792\<rparr>),
     (''WR'', \<lparr>intercept = 46.83016, age_c = -1.75311, ovr_c = 1.76216, interaction = -0.02886\<rparr>)]"

text \<open>
  The table is an object literal, so \<^verbatim>\<open>coeffsByPos[pos]\<close> also finds what every
  object inherits from \<^verbatim>\<open>Object.prototype\<close>: for these names the value read is a
  function (an object for \<^verbatim>\<open>__proto__\<close>), which is truthy.
\<close>

definition objectPrototypeKeys :: "string list" where
  "objectPrototypeKeys =
    [''constructor'', ''__defineGetter__'', ''__defineSetter__'', ''hasOwnProperty'',
     ''__lookupGetter__'', ''__lookupSetter__'', ''isPrototypeOf'', ''propertyIsEnumerable'',
     ''toString'', ''valueOf'', ''__proto__'', ''toLocaleString'']"

text \<open>
  The closure assigned to \<^verbatim>\<open>potEstimator\<close> in the football build. The result is
  \<open>None\<close> for \<^verbatim>\<open>NaN\<close>, which is what the arithmetic gives when \<open>ovr\<close> is not a
  number, and also when \<^verbatim>\<open>coeffs\<close> is an inherited member: the test
  \<^verbatim>\<open>!coeffs\<close> fails, nothing is thrown, and \<^verbatim>\<open>coeffs.intercept\<close> and the
  other three coefficients are \<^verbatim>\<open>undefined\<close>.
\<close>

definition potEstimator_football :: "jsnum \<Rightarrow> int \<Rightarrow> string \<Rightarrow> error + rat option" where
  "potEstimator_football ovr0 age p =
    (case map_of coeffsByPos p of
       None \<Rightarrow> if p \<in> set objectPrototypeKeys then Inr None else Inl (InvalidPosition p)
     | Some c \<Rightarrow>
         Inr (case ovr0 of
                Num v \<Rightarrow>
                  Some (intercept c + age_c c * of_int age + ovr_c c * of_int v
                        + interaction c * of_int age * of_int v)
              | _ \<Rightarrow> None))"

text \<open>The module variable \<^verbatim>\<open>potEstimator\<close>: set only when the sport is football.\<close>

definition potEstimator :: "string \<Rightarrow> (jsnum \<Rightarrow> int \<Rightarrow> string \<Rightarrow> error + rat option) option" where
  "potEstimator sport = (if sport = ''football'' then Some potEstimator_football else None)"

text \<open>\<^verbatim>\<open>Math.round\<close>: the nearest integer, halves rounded up.\<close>

definition Math_round :: "rat \<Rightarrow> int" where
  "Math_round x = \<lfloor>x + 1 / 2\<rfloor>"

text \<open>
  Modelled from the spec: \<^verbatim>\<open>helpers.bound\<close> is not among the sources. The spec says
  the rounded potential is "clamped to [0, 100]".
\<close>

definition bound :: "int \<Rightarrow> int \<Rightarrow> int \<Rightarrow> int" where
  "bound x lo hi = (if x < lo then lo else if x > hi then hi else x)"

subsection \<open>The bootstrap simulation\<close>

definition NUM_SIMULATIONS :: nat where
  "NUM_SIMULATIONS = 20"

text \<open>
  \<^verbatim>\<open>pos ? ratings.ovrs[pos] : ratings.ovr\<close>: a position that is absent or the empty
  string is falsy.
\<close>

definition ovrOf :: "ratings \<Rightarrow> string option \<Rightarrow> jsnum" where
  "ovrOf r p =
    (case p of
       None \<Rightarrow> ovr r
     | Some s \<Rightarrow> if s \<noteq> [] then lookup (ovrs r) s else ovr r)"

text \<open>
  The body of the inner loop of one trial, on the copy at address \<open>c\<close> and the state
  \<open>(h, g, maxOvr)\<close>: a season without coaching rank, then the running maximum.
\<close>

definition ageStep ::
  "'g env \<Rightarrow> nat \<Rightarrow> string option \<Rightarrow> int \<Rightarrow> heap \<times> 'g \<times> jsnum \<Rightarrow> heap \<times> 'g \<times> jsnum" where
  "ageStep e c p ageTemp s =
    (case s of (h, g, maxOvr) \<Rightarrow>
       (case player_developSeason e (h ! c) ageTemp None g of (r', g') \<Rightarrow>
          (let h' = h[c := r'];
               currentOvr = Num (player_ovr e (h' ! c) p)
           in (h', g', if js_gt currentOvr maxOvr then currentOvr else maxOvr))))"

text \<open>\<^verbatim>\<open>for (let ageTemp = age + 1; ageTemp < 30; ageTemp++)\<close>.\<close>

function ageLoop ::
  "'g env \<Rightarrow> nat \<Rightarrow> string option \<Rightarrow> int \<Rightarrow> heap \<times> 'g \<times> jsnum \<Rightarrow> heap \<times> 'g \<times> jsnum" where
  "ageLoop e c p ageTemp s =
    (if ageTemp < 30 then ageLoop e c p (ageTemp + 1) (ageStep e c p ageTemp s) else s)"
  by pat_completeness auto
termination
  by (relation "measure (\<lambda>(e, c, p, ageTemp, s). nat (30 - ageTemp))") auto

declare ageLoop.simps [simp del]

text \<open>One trial: the callback of \<^verbatim>\<open>range(NUM_SIMULATIONS).map\<close>.\<close>

definition trial ::
  "'g env \<Rightarrow> nat \<Rightarrow> int \<Rightarrow> string option \<Rightarrow> heap \<times> 'g \<Rightarrow> heap \<times> 'g \<times> jsnum" where
  "trial e a age p s =
    (case s of (h, g) \<Rightarrow>
       (case deepCopy h a of (c, h1) \<Rightarrow>
          ageLoop e c p (age + 1) (h1, g, ovrOf (h1 ! a) p)))"

text \<open>\<^verbatim>\<open>xs.map(() => ...)\<close>: the trials run one after the other.\<close>

fun mapTrials ::
  "'g env \<Rightarrow> nat \<Rightarrow> int \<Rightarrow> string option \<Rightarrow> nat list \<Rightarrow> heap \<times> 'g \<Rightarrow> jsnum list \<times> heap \<times> 'g" where
  "mapTrials e a age p [] (h, g) = ([], h, g)"
| "mapTrials e a age p (i # is) (h, g) =
    (case trial e a age p (h, g) of (h1, g1, m) \<Rightarrow>
       (case mapTrials e a age p is (h1, g1) of (ms, h2, g2) \<Rightarrow> (m # ms, h2, g2)))"

text \<open>\<^verbatim>\<open>range(n)\<close> of lodash.\<close>

definition range_js :: "nat \<Rightarrow> nat list" where
  "range_js n = [0..<n]"

text \<open>
  \<^verbatim>\<open>orderBy(xs)\<close> of lodash: a stable ascending sort; numbers come first, then
  \<^verbatim>\<open>undefined\<close>, then \<^verbatim>\<open>NaN\<close>.
\<close>

fun orderKey :: "jsnum \<Rightarrow> nat \<times> int" where
  "orderKey (Num v) = (0, v)"
| "orderKey Undefined = (1, 0)"
| "orderKey NaN = (2, 0)"

definition orderBy :: "jsnum list \<Rightarrow> jsnum list" where
  "orderBy xs = sort_key orderKey xs"

text \<open>\<^verbatim>\<open>xs[i]\<close> on an array: \<^verbatim>\<open>undefined\<close> past the end.\<close>

definition nth_js :: "jsnum list \<Rightarrow> nat \<Rightarrow> jsnum" where
  "nth_js xs i = (if i < length xs then xs ! i else Undefined)"

text \<open>\<^verbatim>\<open>Math.floor(0.75 * NUM_SIMULATIONS)\<close>.\<close>

definition percentileIndex :: nat where
  "percentileIndex = nat \<lfloor>(0.75 :: rat) * of_nat NUM_SIMULATIONS\<rfloor>"

subsection \<open>bootstrapPot\<close>

text \<open>
  \<open>a\<close> is the address of the \<^verbatim>\<open>ratings\<close> argument. The result carries the store
  and the generator state as they are when the function returns or throws.
\<close>

definition bootstrapPot ::
  "'g env \<Rightarrow> nat \<Rightarrow> int \<Rightarrow> string option \<Rightarrow> heap \<Rightarrow> 'g \<Rightarrow> (error + jsnum) \<times> heap \<times> 'g" where
  "bootstrapPot e a age p h g =
    (if age \<ge> 29 then (Inr (ovrOf (h ! a) p), h, g)
     else
       (case potEstimator (SPORT e) of
          Some est \<Rightarrow>
            (case p of
               None \<Rightarrow> (Inl PosRequired, h, g)
             | Some s \<Rightarrow>
                 (let ovr0 = lookup (ovrs (h ! a)) s in
                  (case est ovr0 age s of
                     Inl err \<Rightarrow> (Inl err, h, g)
                   | Inr pot0 \<Rightarrow>
                       (case randInt e (- 2) 2 g of (j, g') \<Rightarrow>
                          (case pot0 of
                             None \<Rightarrow> (Inr NaN, h, g')
                           | Some x \<Rightarrow>
                               (let pot1 = x + of_int j in
                                if (case ovr0 of Num v \<Rightarrow> of_int v > pot1 | _ \<Rightarrow> False)
                                then (Inr ovr0, h, g')
                                else (Inr (Num (bound (Math_round pot1) 0 100)), h, g')))))))
        | None \<Rightarrow>
            (case mapTrials e a age p (range_js NUM_SIMULATIONS) (h, g) of
               (maxOvrs, h', g') \<Rightarrow> (Inr (nth_js (orderBy maxOvrs) percentileIndex), h', g'))))"

subsection \<open>Players\<close>

record born_t =
  loc :: string
  year :: int

record draft_t =
  d_ovr :: jsnum
  d_pot :: jsnum
  d_skills :: "string list"

text \<open>
  The player object. \<open>p_ratings\<close> holds the addresses of the ratings rows, and
  \<open>p_pos\<close> is \<open>Some s\<close> exactly when the object has a property \<^verbatim>\<open>pos\<close> whose
  value is the string \<open>s\<close>.
\<close>

record player =
  born :: born_t
  draft :: draft_t
  p_pos :: "string option"
  p_ratings :: "nat list"
  tid :: int
  weight :: int

subsection \<open>develop: the seasons\<close>

text \<open>
  The body of \<^verbatim>\<open>for (let i = 0; i < years; i++)\<close> after the age has been
  settled: the call of \<^verbatim>\<open>developSeason\<close> with that age and the coaching rank,
  then the weight. \<open>r\<close> is the address of the last ratings row.
\<close>

definition seasonBody ::
  "'g env \<Rightarrow> nat \<Rightarrow> rat \<Rightarrow> int \<Rightarrow> player \<times> heap \<times> 'g \<Rightarrow> player \<times> heap \<times> 'g" where
  "seasonBody e r coachingRank age s =
    (case s of (p, h, g) \<Rightarrow>
       (case player_developSeason e (h ! r) age (Some coachingRank) g of (r', g1) \<Rightarrow>
          (let h1 = h[r := r'] in
           if SPORT e = ''football'' then
             (case player_genWeight e (hgt (h1 ! r)) (stre (h1 ! r)) g1 of (newWeight, g2) \<Rightarrow>
                (let oldWeight = weight p in
                 if newWeight - oldWeight > 10 then (p\<lparr>weight := oldWeight + 10\<rparr>, h1, g2)
                 else if newWeight - oldWeight < - 10 then (p\<lparr>weight := oldWeight - 10\<rparr>, h1, g2)
                 else (p\<lparr>weight := newWeight\<rparr>, h1, g2)))
           else (p, h1, g1))))"

text \<open>One pass through the loop, on the state \<open>(age, p, h, g)\<close>.\<close>

definition developIter ::
  "'g env \<Rightarrow> nat \<Rightarrow> bool \<Rightarrow> int \<Rightarrow> rat \<Rightarrow> int \<times> player \<times> heap \<times> 'g
    \<Rightarrow> int \<times> player \<times> heap \<times> 'g" where
  "developIter e r newPlayer years coachingRank s =
    (case s of (age, ps) \<Rightarrow>
       (let age' = (if newPlayer \<or> years > 1 then age + 1 else age)
        in (age', seasonBody e r coachingRank age' ps)))"

function developLoop ::
  "'g env \<Rightarrow> nat \<Rightarrow> bool \<Rightarrow> int \<Rightarrow> rat \<Rightarrow> int \<Rightarrow> int \<times> player \<times> heap \<times> 'g
    \<Rightarrow> int \<times> player \<times> heap \<times> 'g" where
  "developLoop e r newPlayer years coachingRank i s =
    (if i < years
     then developLoop e r newPlayer years coachingRank (i + 1)
            (developIter e r newPlayer years coachingRank s)
     else s)"
  by pat_completeness auto
termination
  by (relation "measure (\<lambda>(e, r, newPlayer, years, coachingRank, i, s). nat (years - i))") auto

declare developLoop.simps [simp del]

subsection \<open>develop: overall, potential and position\<close>

definition bannedPositions :: "string list" where
  "bannedPositions = [''KR'', ''PR'']"

text \<open>
  The reducer that builds \<^verbatim>\<open>ratings.ovrs\<close>, with the two variables of the enclosing
  scope it assigns: \<open>pos\<close> (\<open>None\<close> while \<^verbatim>\<open>undefined\<close>) and \<open>maxOvr\<close>
  (\<open>None\<close> while \<^verbatim>\<open>-Infinity\<close>). \<open>rt\<close> is the ratings object, which keeps its
  old \<^verbatim>\<open>ovrs\<close> until the reduction is over. \<^verbatim>\<open>ovrs[pos2]\<close> is read right
  after it is written, so it is the number just stored.
\<close>

fun ovrsReduce ::
  "'g env \<Rightarrow> ratings \<Rightarrow> string list \<Rightarrow> (string \<times> jsnum) list \<times> string option \<times> int option
    \<Rightarrow> (string \<times> jsnum) list \<times> string option \<times> int option" where
  "ovrsReduce e rt [] acc = acc"
| "ovrsReduce e rt (pos2 # rest) (ovrs0, pos0, maxOvr) =
    (let v = player_ovr e rt (Some pos2);
         ovrs1 = AList.update pos2 (Num v) ovrs0
     in if pos2 \<notin> set bannedPositions \<and> (case maxOvr of None \<Rightarrow> True | Some m \<Rightarrow> v > m)
        then ovrsReduce e rt rest (ovrs1, Some pos2, Some v)
        else ovrsReduce e rt rest (ovrs1, pos0, maxOvr))"

text \<open>
  The reducer that builds \<^verbatim>\<open>ratings.pots\<close>. An exception of
  \<^verbatim>\<open>bootstrapPot\<close> ends the reduction.
\<close>

fun potsReduce ::
  "'g env \<Rightarrow> nat \<Rightarrow> int \<Rightarrow> string list \<Rightarrow> (string \<times> jsnum) list \<Rightarrow> heap \<Rightarrow> 'g
    \<Rightarrow> (error + (string \<times> jsnum) list) \<times> heap \<times> 'g" where
  "potsReduce e r age [] pots0 h g = (Inr pots0, h, g)"
| "potsReduce e r age (pos2 # rest) pots0 h g =
    (case bootstrapPot e r age (Some pos2) h g of
       (Inl err, h', g') \<Rightarrow> (Inl err, h', g')
     | (Inr v, h', g') \<Rightarrow> potsReduce e r age rest (AList.update pos2 v pots0) h' g')"

text \<open>The branch \<^verbatim>\<open>process.env.SPORT === "basketball"\<close>.\<close>

definition rateBasketball ::
  "'g env \<Rightarrow> player \<Rightarrow> nat \<Rightarrow> int \<Rightarrow> bool \<Rightarrow> heap \<Rightarrow> 'g \<Rightarrow> (error + unit) \<times> heap \<times> 'g" where
  "rateBasketball e p r age skipPot h g =
    (let h1 = h[r := (h ! r)\<lparr>ovr := Num (player_ovr e (h ! r) None)\<rparr>] in
     (case (if \<not> skipPot
            then (case bootstrapPot e r age None h1 g of
                    (Inl err, h', g') \<Rightarrow> (Inl err, h', g')
                  | (Inr v, h', g') \<Rightarrow> (Inr (), h'[r := (h' ! r)\<lparr>pot := v\<rparr>], g'))
            else (Inr (), h1, g)) of
        (Inl err, h2, g2) \<Rightarrow> (Inl err, h2, g2)
      | (Inr u, h2, g2) \<Rightarrow>
          (case p_pos p of
             Some s \<Rightarrow> (Inr (), h2[r := (h2 ! r)\<lparr>pos := s\<rparr>], g2)
           | None \<Rightarrow> (Inr (), h2[r := (h2 ! r)\<lparr>pos := player_pos e (h2 ! r)\<rparr>], g2))))"

text \<open>The other branch: one overall and one potential for every position.\<close>

definition ratePositions ::
  "'g env \<Rightarrow> player \<Rightarrow> nat \<Rightarrow> int \<Rightarrow> bool \<Rightarrow> heap \<Rightarrow> 'g \<Rightarrow> (error + unit) \<times> heap \<times> 'g" where
  "ratePositions e p r age skipPot h g =
    (case ovrsReduce e (h ! r) (POSITIONS e) ([], None, None) of (ovrs1, pos1, maxOvr) \<Rightarrow>
       (let h1 = h[r := (h ! r)\<lparr>ovrs := ovrs1\<rparr>] in
        (case (if \<not> skipPot
               then (case potsReduce e r age (POSITIONS e) [] h1 g of
                       (Inl err, h', g') \<Rightarrow> (Inl err, h', g')
                     | (Inr pots1, h', g') \<Rightarrow> (Inr (), h'[r := (h' ! r)\<lparr>pots := pots1\<rparr>], g'))
               else (Inr (), h1, g)) of
           (Inl err, h2, g2) \<Rightarrow> (Inl err, h2, g2)
         | (Inr u, h2, g2) \<Rightarrow>
             (case pos1 of
                None \<Rightarrow> (Inl ShouldNeverHappen, h2, g2)
              | Some s1 \<Rightarrow>
                  (let h3 = h2[r := (h2 ! r)\<lparr>ovr := lookup (ovrs (h2 ! r)) s1\<rparr>];
                       h4 = h3[r := (h3 ! r)\<lparr>pot := lookup (pots (h3 ! r)) s1\<rparr>]
                   in (case p_pos p of
                         Some s \<Rightarrow> (Inr (), h4[r := (h4 ! r)\<lparr>pos := s\<rparr>], g2)
                       | None \<Rightarrow> (Inr (), h4[r := (h4 ! r)\<lparr>pos := s1\<rparr>], g2)))))))"

subsection \<open>develop\<close>

text \<open>
  \<^verbatim>\<open>develop(p, years, newPlayer, coachingRank, skipPot)\<close>. The player and the store
  are returned as the call leaves them, whether it returns or throws.
\<close>

definition develop ::
  "'g env \<Rightarrow> player \<Rightarrow> int \<Rightarrow> bool \<Rightarrow> rat \<Rightarrow> bool \<Rightarrow> heap \<Rightarrow> 'g
    \<Rightarrow> (error + unit) \<times> player \<times> heap \<times> 'g" where
  "develop e p years newPlayer coachingRank skipPot h g =
    (if p_ratings p = [] then (Inl TypeError, p, h, g)
     else
       (let r = last (p_ratings p);
            age0 = season (h ! r) - year (born p)
        in (case developLoop e r newPlayer years coachingRank 0 (age0, p, h, g) of
              (age, p1, h1, g1) \<Rightarrow>
                (case (if SPORT e = ''basketball''
                       then rateBasketball e p1 r age skipPot h1 g1
                       else ratePositions e p1 r age skipPot h1 g1) of
                   (Inl err, h2, g2) \<Rightarrow> (Inl err, p1, h2, g2)
                 | (Inr u, h2, g2) \<Rightarrow>
                     (let h3 = h2[r := (h2 ! r)\<lparr>skills := skills_of e (h2 ! r)\<rparr>];
                          p2 = (if tid p1 = UNDRAFTED e
                                then p1\<lparr>draft := (draft p1)
                                       \<lparr>d_ovr := ovr (h3 ! r),
                                        d_pot := (if \<not> skipPot then pot (h3 ! r) else d_pot (draft p1)),
                                        d_skills := skills (h3 ! r)\<rparr>\<rparr>
                                else p1);
                          p3 = (if newPlayer
                                then p2\<lparr>born := (born p2)\<lparr>year := year (born p2) - years\<rparr>\<rparr>
                                else p2)
                      in (Inr (), p3, h3, g2))))))"

subsection \<open>An example environment\<close>

text \<open>
  A small strategy on which the development can be run: a season adds to
  \<^verbatim>\<open>hgt\<close> the generator state modulo 4; the overall is \<^verbatim>\<open>hgt\<close> without a position and for
  \<^verbatim>\<open>QB\<close>, 99 for \<^verbatim>\<open>KR\<close> and \<^verbatim>\<open>stre\<close> elsewhere, clamped to
  [0, 100]; the generator is a counter.
\<close>

definition exampleEnv :: "string \<Rightarrow> string list \<Rightarrow> nat env" where
  "exampleEnv sport positions =
    \<lparr>SPORT = sport,
     player_developSeason = (\<lambda>rt age rank g. (rt\<lparr>hgt := hgt rt + int (g mod 4)\<rparr>, Suc g)),
     player_ovr = (\<lambda>rt p.
        bound (case p of
                 None \<Rightarrow> hgt rt
               | Some s \<Rightarrow> if s = ''QB'' then hgt rt else if s = ''KR'' then 99 else stre rt)
          0 100),
     player_pos = (\<lambda>rt. ''PG''),
     player_genWeight = (\<lambda>hg st g. (150 + hg + st, Suc g)),
     POSITIONS = positions,
     skills_of = (\<lambda>rt. if hgt rt > 60 then [''B''] else []),
     randInt = (\<lambda>lo hi g. (lo + int g mod (hi - lo + 1), Suc g)),
     UNDRAFTED = - 2\<rparr>"

text \<open>
  The same strategy, except that a season records the age it is given at the end of
  \<^verbatim>\<open>attrs\<close> and changes nothing else.
\<close>

definition recordingEnv :: "string \<Rightarrow> string list \<Rightarrow> nat env" where
  "recordingEnv sport positions =
    (exampleEnv sport positions)
      \<lparr>player_developSeason := (\<lambda>rt age rank g. (rt\<lparr>attrs := attrs rt @ [(''age'', age)]\<rparr>, Suc g))\<rparr>"

definition exampleRatings :: ratings where
  "exampleRatings =
    \<lparr>season = 2020, hgt = 50, stre = 40, ovr = Num 50, pot = Num 55,
     ovrs = [(''QB'', Num 50), (''RB'', Num 40)], pots = [(''QB'', Num 55), (''RB'', Num 45)],
     pos = ''QB'', skills = [], attrs = []\<rparr>"

definition examplePlayer :: player where
  "examplePlayer =
    \<lparr>born = \<lparr>loc = ''USA'', year = 2000\<rparr>,
     draft = \<lparr>d_ovr = Num 0, d_pot = Num 0, d_skills = []\<rparr>,
     p_pos = None, p_ratings = [0], tid = 0, weight = 200\<rparr>"

subsection \<open>Auxiliary notions\<close>

text \<open>
  \<open>grown e p v m\<close>: the running maximum \<open>m\<close> of a trial that started from the number
  \<open>v\<close> is a number, is not below \<open>v\<close>, and is \<open>v\<close> itself or an overall computed by
  the strategy for position \<open>p\<close>.
\<close>

definition grown :: "'g env \<Rightarrow> string option \<Rightarrow> int \<Rightarrow> jsnum \<Rightarrow> bool" where
  "grown e p v m = (\<exists>q. m = Num q \<and> v \<le> q \<and> (q = v \<or> (\<exists>rt. q = player_ovr e rt p)))"

text \<open>
  \<open>estimated e p w q\<close>: what \<^verbatim>\<open>bootstrapPot\<close> can return for position \<open>p\<close> when the
  current overall is the number \<open>w\<close>: \<open>w\<close> itself; or, in the football build, a
  clamped regression value, which is not below \<open>w\<close> unless \<open>w\<close> exceeds 100; or an
  overall computed by the strategy during a simulation, not below \<open>w\<close>.
\<close>

definition estimated :: "'g env \<Rightarrow> string option \<Rightarrow> int \<Rightarrow> int \<Rightarrow> bool" where
  "estimated e p w q =
    (q = w \<or> (SPORT e = ''football'' \<and> 0 \<le> q \<and> q \<le> 100 \<and> (w \<le> 100 \<longrightarrow> w \<le> q))
     \<or> (w \<le> q \<and> (\<exists>rt. q = player_ovr e rt p)))"

section \<open>Properties\<close>

subsection \<open>The store during a simulation\<close>

lemma ageStep_frame:
  "ageStep e c p t (h, g, m) = (h', g', m') \<Longrightarrow>
   length h' = length h \<and> (\<forall>i. i \<noteq> c \<longrightarrow> h' ! i = h ! i)"
  by (auto simp: ageStep_def Let_def split: prod.splits)

lemma ageLoop_frame:
  "ageLoop e c p t s = (h', g', m') \<Longrightarrow>
   length h' = length (fst s) \<and> (\<forall>i. i \<noteq> c \<longrightarrow> h' ! i = fst s ! i)"
proof (induction e c p t s rule: ageLoop.induct)
  case (1 e c p ageTemp s)
  show ?case
  proof (cases "ageTemp < 30")
    case True
    obtain h1 g1 m1 where st: "ageStep e c p ageTemp s = (h1, g1, m1)"
      by (cases "ageStep e c p ageTemp s") auto
    obtain h0 g0 m0 where s: "s = (h0, g0, m0)" by (cases s) auto
    from "1.prems" True have "ageLoop e c p (ageTemp + 1) (ageStep e c p ageTemp s) = (h', g', m')"
      by (subst (asm) ageLoop.simps) simp
    from "1.IH"[OF True this] ageStep_frame[OF st[unfolded s]] st s
    show ?thesis by simp
  next
    case False
    with "1.prems" show ?thesis by (subst (asm) ageLoop.simps) auto
  qed
qed

lemma grown_refl: "grown e p v (Num v)"
  by (simp add: grown_def)

lemma ageStep_grown:
  assumes "ageStep e c p t (h, g, m) = (h', g', m')" and "grown e p v m"
  shows "grown e p v m'"
  using assms by (auto simp: ageStep_def Let_def grown_def split: prod.splits if_splits)

lemma ageLoop_grown:
  "ageLoop e c p t s = (h', g', m') \<Longrightarrow> grown e p v (snd (snd s)) \<Longrightarrow> grown e p v m'"
proof (induction e c p t s rule: ageLoop.induct)
  case (1 e c p ageTemp s)
  show ?case
  proof (cases "ageTemp < 30")
    case True
    obtain h0 g0 m0 where s: "s = (h0, g0, m0)" by (cases s) auto
    obtain h1 g1 m1 where st: "ageStep e c p ageTemp (h0, g0, m0) = (h1, g1, m1)"
      by (cases "ageStep e c p ageTemp (h0, g0, m0)") auto
    from "1.prems"(1) True have run: "ageLoop e c p (ageTemp + 1) (ageStep e c p ageTemp s) = (h', g', m')"
      by (subst (asm) ageLoop.simps) simp
    have "grown e p v m1" using ageStep_grown[OF st] "1.prems"(2) s by simp
    with "1.IH"[OF True run] st s show ?thesis by simp
  next
    case False
    with "1.prems" show ?thesis by (subst (asm) ageLoop.simps) auto
  qed
qed

lemma trial_frame:
  assumes "trial e a age p (h, g) = (h', g', m)"
  shows "length h' = Suc (length h) \<and> take (length h) h' = h"
proof -
  from assms have run: "ageLoop e (length h) p (age + 1) (h @ [h ! a], g, ovrOf ((h @ [h ! a]) ! a) p) = (h', g', m)"
    by (simp add: trial_def deepCopy_def)
  from ageLoop_frame[OF run] have len: "length h' = Suc (length h)"
    and same: "\<forall>i. i \<noteq> length h \<longrightarrow> h' ! i = (h @ [h ! a]) ! i" by simp_all
  have "take (length h) h' = h"
    by (rule nth_equalityI) (use len same in \<open>auto simp: nth_append\<close>)
  with len show ?thesis by simp
qed

lemma trial_grown:
  assumes "trial e a age p (h, g) = (h', g', m)" and "a < length h" and "ovrOf (h ! a) p = Num v"
  shows "grown e p v m"
proof -
  from assms have run: "ageLoop e (length h) p (age + 1) (h @ [h ! a], g, Num v) = (h', g', m)"
    by (simp add: trial_def deepCopy_def nth_append)
  from ageLoop_grown[OF run] show ?thesis by (simp add: grown_refl)
qed

lemma mapTrials_frame:
  "mapTrials e a age p is (h, g) = (ms, h', g') \<Longrightarrow>
   length ms = length is \<and> length h \<le> length h' \<and> take (length h) h' = h"
proof (induction "is" arbitrary: h g ms h' g')
  case Nil
  then show ?case by simp
next
  case (Cons i "is")
  obtain h1 g1 m where t: "trial e a age p (h, g) = (h1, g1, m)"
    by (cases "trial e a age p (h, g)") auto
  obtain ms2 h2 g2 where r: "mapTrials e a age p is (h1, g1) = (ms2, h2, g2)"
    by (cases "mapTrials e a age p is (h1, g1)") auto
  from Cons.prems t r have eq: "ms = m # ms2" "h' = h2" "g' = g2" by simp_all
  from trial_frame[OF t] have f1: "length h1 = Suc (length h)" "take (length h) h1 = h" by simp_all
  from Cons.IH[OF r] have f2: "length ms2 = length is" "length h1 \<le> length h2" "take (length h1) h2 = h1"
    by simp_all
  have "take (length h) h2 = take (length h) (take (length h1) h2)"
    using f1 by (simp add: min_def)
  with f1 f2 eq show ?case by simp
qed

lemma take_nth_same: "take n h' = h \<Longrightarrow> a < length h \<Longrightarrow> h' ! a = h ! a"
  by (metis length_take min_less_iff_conj nth_take)

lemma mapTrials_grown:
  "mapTrials e a age p is (h, g) = (ms, h', g') \<Longrightarrow> a < length h \<Longrightarrow> ovrOf (h ! a) p = Num v \<Longrightarrow>
   \<forall>m \<in> set ms. grown e p v m"
proof (induction "is" arbitrary: h g ms h' g')
  case Nil
  then show ?case by simp
next
  case (Cons i "is")
  obtain h1 g1 m where t: "trial e a age p (h, g) = (h1, g1, m)"
    by (cases "trial e a age p (h, g)") auto
  obtain ms2 h2 g2 where r: "mapTrials e a age p is (h1, g1) = (ms2, h2, g2)"
    by (cases "mapTrials e a age p is (h1, g1)") auto
  from Cons.prems(1) t r have eq: "ms = m # ms2" by simp
  from trial_frame[OF t] have f1: "length h1 = Suc (length h)" "take (length h) h1 = h" by simp_all
  have a1: "a < length h1" using f1 Cons.prems(2) by simp
  have same: "h1 ! a = h ! a" using take_nth_same[OF f1(2) Cons.prems(2)] .
  from Cons.IH[OF r a1] same Cons.prems(3) have "\<forall>m \<in> set ms2. grown e p v m" by simp
  with trial_grown[OF t Cons.prems(2,3)] eq show ?case by simp
qed

lemma orderBy_set: "set (orderBy xs) = set xs"
  by (simp add: orderBy_def)

lemma orderBy_length: "length (orderBy xs) = length xs"
  by (simp add: orderBy_def)

lemma percentileIndex_15: "percentileIndex = 15"
  by (simp add: percentileIndex_def NUM_SIMULATIONS_def)


subsection \<open>Age 29 and older\<close>

text \<open>
  Claim C2. When \<open>age \<ge> 29\<close>, \<^verbatim>\<open>bootstrapPot\<close> returns the current overall as
  it is stored: \<^verbatim>\<open>ratings.ovr\<close> when no position is given and
  \<^verbatim>\<open>ratings.ovrs[pos]\<close> when one is (an empty string counts as no position, as
  it is falsy). This holds for every sport, so with and without the regression
  estimator; the store and the generator are untouched, so neither the jitter is
  drawn nor a simulation run.
\<close>

theorem bootstrapPot_age_29:
  "29 \<le> age \<Longrightarrow>
   bootstrapPot e a age None h g = (Inr (ovr (h ! a)), h, g) \<and>
   (s \<noteq> [] \<longrightarrow> bootstrapPot e a age (Some s) h g = (Inr (lookup (ovrs (h ! a)) s), h, g)) \<and>
   bootstrapPot e a age (Some []) h g = (Inr (ovr (h ! a)), h, g)"
  by (simp add: bootstrapPot_def ovrOf_def)

theorem bootstrapPot_age_29_witness:
  "(29 :: int) \<le> 29 \<and>
   bootstrapPot (exampleEnv ''football'' []) 0 29 None [exampleRatings] 7 = (Inr (Num 50), [exampleRatings], 7) \<and>
   bootstrapPot (exampleEnv ''football'' []) 0 29 (Some ''RB'') [exampleRatings] 7 = (Inr (Num 40), [exampleRatings], 7) \<and>
   bootstrapPot (exampleEnv ''basketball'' []) 0 29 (Some ''RB'') [exampleRatings] 7 = (Inr (Num 40), [exampleRatings], 7)"
  using bootstrapPot_age_29[of 29 "exampleEnv ''football'' []" 0 "[exampleRatings]" 7 "''RB''"]
    bootstrapPot_age_29[of 29 "exampleEnv ''basketball'' []" 0 "[exampleRatings]" 7 "''RB''"]
  by (simp add: exampleRatings_def lookup_def)

subsection \<open>Errors of the regression estimator\<close>

lemma potEstimator_football_unknown:
  "s \<notin> fst ` set coeffsByPos \<Longrightarrow> s \<notin> set objectPrototypeKeys \<Longrightarrow>
   potEstimator_football v age s = Inl (InvalidPosition s)"
proof -
  assume "s \<notin> fst ` set coeffsByPos" and inh: "s \<notin> set objectPrototypeKeys"
  then have "map_of coeffsByPos s = None" by (simp add: map_of_eq_None_iff)
  with inh show ?thesis by (simp add: potEstimator_football_def)
qed

text \<open>
  What holds of the errors: in the football build and below age 29, a position that is
  neither a key of the coefficient table nor a name inherited from
  \<^verbatim>\<open>Object.prototype\<close> makes \<^verbatim>\<open>bootstrapPot\<close> throw the invalid-position
  error, and a missing position makes it throw the position-required error. In both
  cases the store is the one passed in and no random number has been drawn.
\<close>

lemma bootstrapPot_regression_throws:
  "SPORT e = ''football'' \<Longrightarrow> age < 29 \<Longrightarrow>
   (s \<notin> fst ` set coeffsByPos \<and> s \<notin> set objectPrototypeKeys
      \<longrightarrow> bootstrapPot e a age (Some s) h g = (Inl (InvalidPosition s), h, g)) \<and>
   bootstrapPot e a age None h g = (Inl PosRequired, h, g)"
  by (simp add: bootstrapPot_def potEstimator_def potEstimator_football_unknown)

text \<open>
  Claim C7 fails on the code for a position that the coefficient table only inherits.
  \<^verbatim>\<open>toString\<close> is not a key of the table, yet in the football build at age 20
  \<^verbatim>\<open>bootstrapPot\<close> throws nothing: it draws the jitter (the generator moves from 0
  to 1) and returns \<^verbatim>\<open>NaN\<close>. The store is unchanged.
\<close>

theorem bootstrapPot_inherited_position:
  "''toString'' \<notin> fst ` set coeffsByPos \<and>
   bootstrapPot (exampleEnv ''football'' []) 0 20 (Some ''toString'') [exampleRatings] 0
     = (Inr NaN, [exampleRatings], 1)"
  by (simp add: bootstrapPot_def potEstimator_def potEstimator_football_def coeffsByPos_def
      objectPrototypeKeys_def exampleEnv_def exampleRatings_def lookup_def image_iff)

subsection \<open>bootstrapPot leaves its argument alone\<close>

lemma bootstrapPot_regression_heap:
  assumes est: "potEstimator (SPORT e) = Some est"
  shows "fst (snd (bootstrapPot e a age p h g)) = h"
proof (cases "age \<ge> 29")
  case True
  then show ?thesis by (simp add: bootstrapPot_def)
next
  case young: False
  show ?thesis
  proof (cases p)
    case None
    with young est show ?thesis by (simp add: bootstrapPot_def)
  next
    case (Some s)
    show ?thesis
    proof (cases "est (lookup (ovrs (h ! a)) s) age s")
      case (Inl err)
      with young est Some show ?thesis by (simp add: bootstrapPot_def)
    next
      case (Inr pot0)
      obtain j g1 where j: "randInt e (- 2) 2 g = (j, g1)"
        by (cases "randInt e (- 2) 2 g") auto
      show ?thesis
      proof (cases pot0)
        case None
        with young est Some Inr j show ?thesis by (simp add: bootstrapPot_def)
      next
        case (Some x)
        with young est \<open>p = Some s\<close> Inr j show ?thesis by (simp add: bootstrapPot_def Let_def)
      qed
    qed
  qed
qed

lemma bootstrapPot_heap:
  assumes run: "bootstrapPot e a age p h g = (res, h', g')"
  shows "take (length h) h' = h \<and> length h \<le> length h'"
proof (cases "age \<ge> 29")
  case True
  with run show ?thesis by (simp add: bootstrapPot_def)
next
  case False
  show ?thesis
  proof (cases "potEstimator (SPORT e)")
    case None
    obtain ms h2 g2 where m: "mapTrials e a age p (range_js NUM_SIMULATIONS) (h, g) = (ms, h2, g2)"
      by (cases "mapTrials e a age p (range_js NUM_SIMULATIONS) (h, g)") auto
    with run False None have "h' = h2" by (simp add: bootstrapPot_def)
    with mapTrials_frame[OF m] show ?thesis by simp
  next
    case (Some est)
    from bootstrapPot_regression_heap[OF Some, of a age p h g] run show ?thesis by simp
  qed
qed

text \<open>
  Claim C10. Whatever \<^verbatim>\<open>bootstrapPot\<close> does (return or throw), the ratings object
  it was given has the contents it had before, and so has every other object that
  existed before the call: the simulated seasons are applied to copies, which are
  new objects at the end of the store.
\<close>

theorem bootstrapPot_frame:
  "a < length h \<Longrightarrow> bootstrapPot e a age p h g = (res, h', g') \<Longrightarrow>
   h' ! a = h ! a \<and> take (length h) h' = h"
  using bootstrapPot_heap[of e a age p h g res h' g'] take_nth_same[of "length h" h' h a] by simp

theorem bootstrapPot_frame_witness:
  "(0 :: nat) < length [exampleRatings] \<and>
   fst (bootstrapPot (exampleEnv ''basketball'' []) 0 28 None [exampleRatings] 0) = Inr (Num 53) \<and>
   fst (snd (bootstrapPot (exampleEnv ''basketball'' []) 0 28 None [exampleRatings] 0)) ! 0 = exampleRatings \<and>
   take 1 (fst (snd (bootstrapPot (exampleEnv ''basketball'' []) 0 28 None [exampleRatings] 0))) = [exampleRatings]"
proof -
  let ?b = "bootstrapPot (exampleEnv ''basketball'' []) 0 28 None [exampleRatings] 0"
  have "?b = (fst ?b, fst (snd ?b), snd (snd ?b))" by simp
  from bootstrapPot_frame[OF _ this] have "fst (snd ?b) ! 0 = exampleRatings \<and> take 1 (fst (snd ?b)) = [exampleRatings]"
    by simp
  moreover have "fst ?b = Inr (Num 53)"
    by (simp add: bootstrapPot_def potEstimator_def NUM_SIMULATIONS_def range_js_def upt_rec
        trial_def deepCopy_def ageLoop.simps ageStep_def exampleEnv_def exampleRatings_def ovrOf_def
        bound_def orderBy_def nth_js_def percentileIndex_15)
  ultimately show ?thesis by simp
qed

subsection \<open>The percentile of the simulation\<close>

lemma mapTrials_each:
  "mapTrials e a age p is (h, g) = (ms, h', g') \<Longrightarrow> a < length h \<Longrightarrow>
   \<forall>i < length is. \<exists>hi gi. hi ! a = h ! a \<and> ms ! i = snd (snd (trial e a age p (hi, gi)))"
proof (induction "is" arbitrary: h g ms h' g')
  case Nil
  then show ?case by simp
next
  case (Cons i0 "is")
  obtain h1 g1 m where t: "trial e a age p (h, g) = (h1, g1, m)"
    by (cases "trial e a age p (h, g)") auto
  obtain ms2 h2 g2 where r: "mapTrials e a age p is (h1, g1) = (ms2, h2, g2)"
    by (cases "mapTrials e a age p is (h1, g1)") auto
  from Cons.prems(1) t r have eq: "ms = m # ms2" by simp
  from trial_frame[OF t] have f1: "length h1 = Suc (length h)" "take (length h) h1 = h" by simp_all
  have a1: "a < length h1" using f1 Cons.prems(2) by simp
  have same: "h1 ! a = h ! a" using take_nth_same[OF f1(2) Cons.prems(2)] .
  have rest: "\<forall>i < length is. \<exists>hi gi. hi ! a = h ! a \<and> ms2 ! i = snd (snd (trial e a age p (hi, gi)))"
    using Cons.IH[OF r a1] same by simp
  show ?case
  proof (intro allI impI)
    fix i assume "i < length (i0 # is)"
    show "\<exists>hi gi. hi ! a = h ! a \<and> ms ! i = snd (snd (trial e a age p (hi, gi)))"
    proof (cases i)
      case 0
      have "h ! a = h ! a \<and> ms ! i = snd (snd (trial e a age p (h, g)))"
        using 0 eq t by simp
      then show ?thesis by blast
    next
      case (Suc k)
      with \<open>i < length (i0 # is)\<close> have "k < length is" by simp
      with rest Suc eq show ?thesis by simp
    qed
  qed
qed

lemma orderBy_sorted: "sorted (map orderKey (orderBy xs))"
  by (simp add: orderBy_def)

lemma orderBy_mset: "mset (orderBy xs) = mset xs"
  by (simp add: orderBy_def)

lemma bootstrapPot_simulation_run:
  assumes sport: "SPORT e \<noteq> ''football''" and young: "age < 29"
    and m: "mapTrials e a age p [0..<20] (h, g) = (ms, h', g')"
  shows "length ms = 20 \<and> bootstrapPot e a age p h g = (Inr (orderBy ms ! 15), h', g')"
proof -
  from mapTrials_frame[OF m] have len: "length ms = 20" by simp
  have "bootstrapPot e a age p h g = (Inr (orderBy ms ! 15), h', g')"
    using sport young m len
    by (simp add: bootstrapPot_def potEstimator_def range_js_def NUM_SIMULATIONS_def nth_js_def
        orderBy_length percentileIndex_15)
  with len show ?thesis by simp
qed

text \<open>
  Claim C4. Without a regression estimator and below age 29, \<^verbatim>\<open>bootstrapPot\<close>
  runs 20 trials, one after the other; every trial starts from a copy of the ratings
  as they were passed in. The 20 maxima are sorted in ascending order (the sorted list
  is a permutation of the maxima), and the result is the element at index 15, counted
  from 0, of the sorted list.
\<close>

theorem bootstrapPot_simulation:
  assumes sport: "SPORT e \<noteq> ''football''" and young: "age < 29" and a: "a < length h"
  shows "\<exists>ms h' g'.
           mapTrials e a age p [0..<20] (h, g) = (ms, h', g') \<and>
           length ms = 20 \<and>
           (\<forall>i<20. \<exists>hi gi. hi ! a = h ! a \<and> ms ! i = snd (snd (trial e a age p (hi, gi)))) \<and>
           sorted (map orderKey (orderBy ms)) \<and> mset (orderBy ms) = mset ms \<and>
           bootstrapPot e a age p h g = (Inr (orderBy ms ! 15), h', g')"
proof -
  obtain ms h' g' where m: "mapTrials e a age p [0..<20] (h, g) = (ms, h', g')"
    by (cases "mapTrials e a age p [0..<20] (h, g)") auto
  from bootstrapPot_simulation_run[OF sport young m]
  have len: "length ms = 20" and b: "bootstrapPot e a age p h g = (Inr (orderBy ms ! 15), h', g')"
    by simp_all
  from mapTrials_each[OF m a] len
  have each: "\<forall>i<20. \<exists>hi gi. hi ! a = h ! a \<and> ms ! i = snd (snd (trial e a age p (hi, gi)))"
    by simp
  from m len each b orderBy_sorted orderBy_mset show ?thesis by blast
qed

theorem bootstrapPot_simulation_witness:
  "SPORT (exampleEnv ''basketball'' []) \<noteq> ''football'' \<and> (28 :: int) < 29 \<and>
   (0 :: nat) < length [exampleRatings] \<and>
   fst (mapTrials (exampleEnv ''basketball'' []) 0 28 None [0..<20] ([exampleRatings], 0))
     = map Num [50, 51, 52, 53, 50, 51, 52, 53, 50, 51, 52, 53, 50, 51, 52, 53, 50, 51, 52, 53] \<and>
   fst (bootstrapPot (exampleEnv ''basketball'' []) 0 28 None [exampleRatings] 0) = Inr (Num 53)"
proof -
  let ?e = "exampleEnv ''basketball'' []"
  have s: "SPORT ?e \<noteq> ''football''" by (simp add: exampleEnv_def)
  have ms: "fst (mapTrials ?e 0 28 None [0..<20] ([exampleRatings], 0))
     = map Num [50, 51, 52, 53, 50, 51, 52, 53, 50, 51, 52, 53, 50, 51, 52, 53, 50, 51, 52, 53]"
    by (simp add: upt_rec trial_def deepCopy_def ageLoop.simps ageStep_def exampleEnv_def
        exampleRatings_def ovrOf_def bound_def)
  from bootstrapPot_simulation[OF s, of 28 0 "[exampleRatings]" None 0]
  obtain ms h' g' where
    m: "mapTrials ?e 0 28 None [0..<20] ([exampleRatings], 0) = (ms, h', g')" and
    b: "bootstrapPot ?e 0 28 None [exampleRatings] 0 = (Inr (orderBy ms ! 15), h', g')"
    by auto
  from m ms have "ms = map Num [50, 51, 52, 53, 50, 51, 52, 53, 50, 51, 52, 53, 50, 51, 52, 53, 50, 51, 52, 53]"
    by simp
  then have "orderBy ms ! 15 = Num 53" by (simp add: orderBy_def)
  with b ms s show ?thesis by simp
qed

subsection \<open>The value bootstrapPot returns\<close>

lemma Math_round_ge: "of_int v \<le> x \<Longrightarrow> v \<le> Math_round x"
  by (simp add: Math_round_def le_floor_iff)

lemma bound_range: "0 \<le> bound x 0 100 \<and> bound x 0 100 \<le> 100"
  by (simp add: bound_def)

lemma bound_ge: "v \<le> x \<Longrightarrow> v \<le> 100 \<Longrightarrow> v \<le> bound x 0 100"
  by (simp add: bound_def)

lemma coeffsByPos_no_empty: "map_of coeffsByPos [] = None"
  by (simp add: coeffsByPos_def)

text \<open>The regression branch, for a current overall that is a number.\<close>

lemma bootstrapPot_regression_result:
  assumes sport: "SPORT e = ''football''" and young: "age < 29"
    and run: "bootstrapPot e a age (Some s) h g = (Inr v, h', g')"
    and cur: "lookup (ovrs (h ! a)) s = Num w"
    and inh: "s \<notin> set objectPrototypeKeys"
  shows "s \<noteq> [] \<and> (v = Num w \<or> (\<exists>q. v = Num q \<and> 0 \<le> q \<and> q \<le> 100 \<and> (w \<le> 100 \<longrightarrow> w \<le> q)))"
proof (cases "map_of coeffsByPos s")
  case None
  with sport young run inh show ?thesis
    by (simp add: bootstrapPot_def potEstimator_def potEstimator_football_def)
next
  case (Some c)
  then have s: "s \<noteq> []" using coeffsByPos_no_empty by auto
  obtain j g1 where j: "randInt e (- 2) 2 g = (j, g1)"
    by (cases "randInt e (- 2) 2 g") auto
  define x where "x = intercept c + age_c c * of_int age + ovr_c c * of_int w
                        + interaction c * of_int age * of_int w + of_int j"
  show ?thesis
  proof (cases "of_int w > x")
    case True
    with sport young run cur Some j have "v = Num w"
      by (simp add: bootstrapPot_def potEstimator_def potEstimator_football_def x_def)
    with s show ?thesis by simp
  next
    case False
    with sport young run cur Some j have v: "v = Num (bound (Math_round x) 0 100)"
      by (simp add: bootstrapPot_def potEstimator_def potEstimator_football_def x_def)
    from False have "w \<le> Math_round x" by (simp add: Math_round_ge)
    then have "w \<le> 100 \<longrightarrow> w \<le> bound (Math_round x) 0 100" by (simp add: bound_ge)
    with v s bound_range[of "Math_round x"] show ?thesis by simp
  qed
qed

text \<open>The simulation branch, for a current overall that is a number.\<close>

lemma bootstrapPot_simulation_result:
  assumes sport: "SPORT e \<noteq> ''football''" and young: "age < 29" and a: "a < length h"
    and run: "bootstrapPot e a age p h g = (res, h', g')"
    and cur: "ovrOf (h ! a) p = Num w"
  shows "\<exists>v. res = Inr v \<and> grown e p w v"
proof -
  obtain ms h2 g2 where m: "mapTrials e a age p [0..<20] (h, g) = (ms, h2, g2)"
    by (cases "mapTrials e a age p [0..<20] (h, g)") auto
  from bootstrapPot_simulation_run[OF sport young m]
  have len: "length ms = 20" and b: "bootstrapPot e a age p h g = (Inr (orderBy ms ! 15), h2, g2)"
    by simp_all
  have "orderBy ms ! 15 \<in> set (orderBy ms)" using len by (simp add: orderBy_length)
  then have "orderBy ms ! 15 \<in> set ms" by (simp add: orderBy_set)
  with mapTrials_grown[OF m a cur] have "grown e p w (orderBy ms ! 15)" by blast
  with b run show ?thesis by simp
qed

text \<open>All three ways out of \<^verbatim>\<open>bootstrapPot\<close>, for a current overall that is a number.\<close>

lemma bootstrapPot_value:
  assumes a: "a < length h" and run: "bootstrapPot e a age p h g = (Inr v, h', g')"
    and cur: "ovrOf (h ! a) p = Num w"
    and inh: "SPORT e = ''football'' \<longrightarrow> p \<notin> Some ` set objectPrototypeKeys"
  shows "\<exists>q. v = Num q \<and>
           (q = w \<or> (SPORT e = ''football'' \<and> 0 \<le> q \<and> q \<le> 100 \<and> (w \<le> 100 \<longrightarrow> w \<le> q))
            \<or> (w \<le> q \<and> (\<exists>rt. q = player_ovr e rt p)))"
proof (cases "age \<ge> 29")
  case True
  with run cur have "v = Num w" by (auto simp: bootstrapPot_def)
  then show ?thesis by simp
next
  case False
  then have young: "age < 29" by simp
  show ?thesis
  proof (cases "SPORT e = ''football''")
    case True
    show ?thesis
    proof (cases p)
      case None
      with True young run show ?thesis by (simp add: bootstrapPot_def potEstimator_def)
    next
      case (Some s)
      from inh True Some have ni: "s \<notin> set objectPrototypeKeys" by auto
      have "s \<noteq> []"
      proof
        assume "s = []"
        with True young run Some coeffsByPos_no_empty show False
          by (simp add: bootstrapPot_def potEstimator_def potEstimator_football_def
              objectPrototypeKeys_def)
      qed
      with cur Some have l: "lookup (ovrs (h ! a)) s = Num w" by (simp add: ovrOf_def)
      from bootstrapPot_regression_result[OF True young run[unfolded Some] l ni] True
      show ?thesis by auto
    qed
  next
    case False
    from bootstrapPot_simulation_result[OF False young a run cur]
    show ?thesis by (auto simp: grown_def)
  qed
qed

subsection \<open>The seasons loop and the reducers\<close>

lemma seasonBody_frame:
  assumes "seasonBody e r cr age (p, h, g) = (p', h', g')"
  shows "length h' = length h \<and> p' = p\<lparr>weight := weight p'\<rparr>"
  using assms
  by (auto simp: seasonBody_def Let_def split: prod.splits if_splits)

lemma developLoop_frame:
  "developLoop e r np years cr i s = (age', p', h', g') \<Longrightarrow>
   length h' = length (fst (snd (snd s))) \<and> p' = (fst (snd s))\<lparr>weight := weight p'\<rparr>"
proof (induction e r np years cr i s rule: developLoop.induct)
  case (1 e r np years cr i s)
  show ?case
  proof (cases "i < years")
    case True
    obtain age0 p0 h0 g0 where s: "s = (age0, p0, h0, g0)" by (cases s) auto
    obtain p1 h1 g1 where sb: "seasonBody e r cr (if np \<or> years > 1 then age0 + 1 else age0) (p0, h0, g0) = (p1, h1, g1)"
      by (cases "seasonBody e r cr (if np \<or> years > 1 then age0 + 1 else age0) (p0, h0, g0)") auto
    have it: "developIter e r np years cr s = ((if np \<or> years > 1 then age0 + 1 else age0), p1, h1, g1)"
      using s sb by (simp add: developIter_def Let_def)
    from "1.prems" True have run: "developLoop e r np years cr (i + 1) (developIter e r np years cr s) = (age', p', h', g')"
      by (subst (asm) developLoop.simps) simp
    from "1.IH"[OF True run] it have "length h' = length h1" "p' = p1\<lparr>weight := weight p'\<rparr>" by simp_all
    moreover from seasonBody_frame[OF sb] have "length h1 = length h0" "p1 = p0\<lparr>weight := weight p1\<rparr>" by simp_all
    ultimately have "length h' = length h0" "p' = p0\<lparr>weight := weight p'\<rparr>"
      by (simp, metis player.surjective player.update_convs(6))
    with s show ?thesis by simp
  next
    case False
    with "1.prems" show ?thesis by (subst (asm) developLoop.simps) auto
  qed
qed


lemma developLoop_heap_length:
  "developLoop e r np years cr i (age, p, h, g) = (age', p', h', g') \<Longrightarrow> length h' = length h"
  using developLoop_frame[of e r np years cr i "(age, p, h, g)" age' p' h' g'] by simp

lemma developLoop_player:
  "developLoop e r np years cr i (age, p, h, g) = (age', p', h', g') \<Longrightarrow>
   p_pos p' = p_pos p \<and> tid p' = tid p \<and> born p' = born p \<and> draft p' = draft p
   \<and> p_ratings p' = p_ratings p"
proof -
  assume "developLoop e r np years cr i (age, p, h, g) = (age', p', h', g')"
  from developLoop_frame[OF this] have "p' = p\<lparr>weight := weight p'\<rparr>" by simp
  then show ?thesis by (metis player.select_convs(1-5) player.surjective player.update_convs(6))
qed

text \<open>The reducer for \<^verbatim>\<open>ovrs\<close>.\<close>

lemma ovrsReduce_map:
  "ovrsReduce e rt ps (ovrs0, pos0, max0) = (ovrs1, pos1, max1) \<Longrightarrow>
   map_of ovrs1 q = (if q \<in> set ps then Some (Num (player_ovr e rt (Some q))) else map_of ovrs0 q)"
proof (induction ps arbitrary: ovrs0 pos0 max0)
  case Nil
  then show ?case by simp
next
  case (Cons pos2 rest)
  define v where "v = player_ovr e rt (Some pos2)"
  define o1 where "o1 = AList.update pos2 (Num v) ovrs0"
  obtain pos' max' where step: "ovrsReduce e rt rest (o1, pos', max') = (ovrs1, pos1, max1)"
    using Cons.prems by (auto simp: Let_def v_def o1_def split: if_splits)
  from Cons.IH[OF step]
  have "map_of ovrs1 q = (if q \<in> set rest then Some (Num (player_ovr e rt (Some q))) else map_of o1 q)" .
  then show ?case by (auto simp: o1_def v_def update_conv')
qed

lemma ovrsReduce_keys:
  "ovrsReduce e rt ps (ovrs0, pos0, max0) = (ovrs1, pos1, max1) \<Longrightarrow>
   fst ` set ovrs1 = fst ` set ovrs0 \<union> set ps"
proof (induction ps arbitrary: ovrs0 pos0 max0)
  case Nil
  then show ?case by simp
next
  case (Cons pos2 rest)
  define v where "v = player_ovr e rt (Some pos2)"
  define o1 where "o1 = AList.update pos2 (Num v) ovrs0"
  obtain pos' max' where step: "ovrsReduce e rt rest (o1, pos', max') = (ovrs1, pos1, max1)"
    using Cons.prems by (auto simp: Let_def v_def o1_def split: if_splits)
  from Cons.IH[OF step] have "fst ` set ovrs1 = fst ` set o1 \<union> set rest" .
  then show ?case by (auto simp: o1_def dom_update)
qed

lemma ovrsReduce_choice:
  assumes "ovrsReduce e rt ps (ovrs0, pos0, max0) = (ovrs1, pos1, max1)"
    and "case pos0 of None \<Rightarrow> max0 = None | Some s \<Rightarrow> max0 = Some (player_ovr e rt (Some s))"
  shows "case pos1 of
           None \<Rightarrow> pos0 = None \<and> set ps \<subseteq> set bannedPositions
         | Some s \<Rightarrow>
             max1 = Some (player_ovr e rt (Some s)) \<and>
             (pos0 = Some s \<or> (s \<in> set ps \<and> s \<notin> set bannedPositions)) \<and>
             (\<forall>q \<in> set ps. q \<notin> set bannedPositions \<longrightarrow> player_ovr e rt (Some q) \<le> player_ovr e rt (Some s)) \<and>
             (\<forall>s0. pos0 = Some s0 \<longrightarrow> player_ovr e rt (Some s0) \<le> player_ovr e rt (Some s))"
  using assms
proof (induction ps arbitrary: ovrs0 pos0 max0)
  case Nil
  then show ?case by (auto split: option.splits)
next
  case (Cons pos2 rest)
  define v where "v = player_ovr e rt (Some pos2)"
  define o1 where "o1 = AList.update pos2 (Num v) ovrs0"
  define c where "c = (pos2 \<notin> set bannedPositions \<and> (case max0 of None \<Rightarrow> True | Some m \<Rightarrow> v > m))"
  show ?case
  proof (cases c)
    case True
    with Cons.prems(1) have step: "ovrsReduce e rt rest (o1, Some pos2, Some v) = (ovrs1, pos1, max1)"
      by (cases max0) (auto simp: Let_def v_def o1_def c_def split: if_splits)
    have "case Some pos2 of None \<Rightarrow> Some v = None | Some s \<Rightarrow> Some v = Some (player_ovr e rt (Some s))"
      by (simp add: v_def)
    from Cons.IH[OF step this] obtain s where s: "pos1 = Some s"
      "max1 = Some (player_ovr e rt (Some s))"
      "pos2 = s \<or> (s \<in> set rest \<and> s \<notin> set bannedPositions)"
      "\<forall>q \<in> set rest. q \<notin> set bannedPositions \<longrightarrow> player_ovr e rt (Some q) \<le> player_ovr e rt (Some s)"
      "player_ovr e rt (Some pos2) \<le> player_ovr e rt (Some s)"
      by (cases pos1) auto
    have old: "\<forall>s0. pos0 = Some s0 \<longrightarrow> player_ovr e rt (Some s0) \<le> player_ovr e rt (Some s)"
      using True Cons.prems(2) s(5) by (auto simp: c_def v_def split: option.splits)
    from True have "pos2 \<notin> set bannedPositions" by (simp add: c_def)
    with s old show ?thesis by auto
  next
    case False
    with Cons.prems(1) have step: "ovrsReduce e rt rest (o1, pos0, max0) = (ovrs1, pos1, max1)"
      by (cases max0) (auto simp: Let_def v_def o1_def c_def split: if_splits)
    note ih = Cons.IH[OF step Cons.prems(2)]
    show ?thesis
    proof (cases pos1)
      case None
      with ih have "pos0 = None" "set rest \<subseteq> set bannedPositions" by simp_all
      moreover from \<open>pos0 = None\<close> Cons.prems(2) have "max0 = None" by simp
      with False have "pos2 \<in> set bannedPositions" by (simp add: c_def)
      ultimately show ?thesis using None by simp
    next
      case (Some s)
      with ih have s: "max1 = Some (player_ovr e rt (Some s))"
        "pos0 = Some s \<or> (s \<in> set rest \<and> s \<notin> set bannedPositions)"
        "\<forall>q \<in> set rest. q \<notin> set bannedPositions \<longrightarrow> player_ovr e rt (Some q) \<le> player_ovr e rt (Some s)"
        "\<forall>s0. pos0 = Some s0 \<longrightarrow> player_ovr e rt (Some s0) \<le> player_ovr e rt (Some s)"
        by simp_all
      have "pos2 \<notin> set bannedPositions \<longrightarrow> player_ovr e rt (Some pos2) \<le> player_ovr e rt (Some s)"
      proof
        assume nb: "pos2 \<notin> set bannedPositions"
        with False obtain m where m: "max0 = Some m" "\<not> v > m"
          by (cases max0) (auto simp: c_def)
        with Cons.prems(2) obtain s0 where "pos0 = Some s0" "m = player_ovr e rt (Some s0)"
          by (cases pos0) auto
        with s(4) m show "player_ovr e rt (Some pos2) \<le> player_ovr e rt (Some s)" by (simp add: v_def)
      qed
      with s Some show ?thesis by auto
    qed
  qed
qed

text \<open>The reducer for \<^verbatim>\<open>pots\<close>.\<close>

lemma potsReduce_heap:
  "potsReduce e r age ps pots0 h g = (res, h', g') \<Longrightarrow>
   take (length h) h' = h \<and> length h \<le> length h'"
proof (induction ps arbitrary: pots0 h g)
  case Nil
  then show ?case by auto
next
  case (Cons pos2 rest)
  obtain rb hb gb where b: "bootstrapPot e r age (Some pos2) h g = (rb, hb, gb)"
    by (cases "bootstrapPot e r age (Some pos2) h g") auto
  from bootstrapPot_heap[OF b] have f1: "take (length h) hb = h" "length h \<le> length hb" by simp_all
  show ?case
  proof (cases rb)
    case (Inl err)
    with Cons.prems b f1 show ?thesis by simp
  next
    case (Inr v)
    with Cons.prems b have "potsReduce e r age rest (AList.update pos2 v pots0) hb gb = (res, h', g')"
      by simp
    from Cons.IH[OF this] have f2: "take (length hb) h' = hb" "length hb \<le> length h'" by simp_all
    have "take (length h) h' = take (length h) (take (length hb) h')"
      using f1(2) by (simp add: min_def)
    with f1 f2 show ?thesis by simp
  qed
qed

lemma potsReduce_map:
  "potsReduce e r age ps pots0 h g = (Inr pots1, h', g') \<Longrightarrow> r < length h \<Longrightarrow>
   (\<forall>q. q \<notin> set ps \<longrightarrow> map_of pots1 q = map_of pots0 q) \<and>
   (\<forall>q \<in> set ps. \<exists>hi gi hj gj v. r < length hi \<and> hi ! r = h ! r \<and>
        bootstrapPot e r age (Some q) hi gi = (Inr v, hj, gj) \<and> map_of pots1 q = Some v)"
proof (induction ps arbitrary: pots0 h g)
  case Nil
  then show ?case by auto
next
  case (Cons pos2 rest)
  obtain rb hb gb where b: "bootstrapPot e r age (Some pos2) h g = (rb, hb, gb)"
    by (cases "bootstrapPot e r age (Some pos2) h g") auto
  from bootstrapPot_heap[OF b] have f1: "take (length h) hb = h" "length h \<le> length hb" by simp_all
  have rb: "r < length hb" using f1(2) Cons.prems(2) by simp
  have same: "hb ! r = h ! r" using take_nth_same[OF f1(1) Cons.prems(2)] .
  from Cons.prems(1) b obtain v where v: "rb = Inr v"
    and rest: "potsReduce e r age rest (AList.update pos2 v pots0) hb gb = (Inr pots1, h', g')"
    by (cases rb) auto
  note ih = Cons.IH[OF rest rb]
  have other: "\<forall>q. q \<notin> set (pos2 # rest) \<longrightarrow> map_of pots1 q = map_of pots0 q"
    using ih by (auto simp: update_conv')
  have inrest: "\<forall>q \<in> set rest. \<exists>hi gi hj gj v. r < length hi \<and> hi ! r = h ! r \<and>
        bootstrapPot e r age (Some q) hi gi = (Inr v, hj, gj) \<and> map_of pots1 q = Some v"
    using ih same by simp
  have first: "\<exists>hi gi hj gj v. r < length hi \<and> hi ! r = h ! r \<and>
        bootstrapPot e r age (Some pos2) hi gi = (Inr v, hj, gj) \<and> map_of pots1 pos2 = Some v"
  proof (cases "pos2 \<in> set rest")
    case True
    with inrest show ?thesis by blast
  next
    case False
    with ih have "map_of pots1 pos2 = map_of (AList.update pos2 v pots0) pos2" by blast
    then have "map_of pots1 pos2 = Some v" by (simp add: update_conv')
    with b v Cons.prems(2) show ?thesis by blast
  qed
  from other inrest first show ?case by auto
qed

subsection \<open>The ratings object after develop\<close>

text \<open>What the two rating branches leave in the ratings object.\<close>

lemma rateBasketball_obj:
  assumes run: "rateBasketball e p r age skipPot h g = (Inr u, h2, g2)" and r: "r < length h"
  shows "\<exists>v. r < length h2 \<and>
           h2 ! r = (h ! r)\<lparr>ovr := Num (player_ovr e (h ! r) None), pot := v,
                      pos := (case p_pos p of
                                Some s \<Rightarrow> s
                              | None \<Rightarrow> player_pos e ((h ! r)\<lparr>ovr := Num (player_ovr e (h ! r) None), pot := v\<rparr>))\<rparr> \<and>
           (if skipPot then v = pot (h ! r)
            else (\<exists>hi gi hj gj. r < length hi \<and> hi ! r = (h ! r)\<lparr>ovr := Num (player_ovr e (h ! r) None)\<rparr> \<and>
                    bootstrapPot e r age None hi gi = (Inr v, hj, gj)))"
proof -
  define w where "w = player_ovr e (h ! r) None"
  define h1 where "h1 = h[r := (h ! r)\<lparr>ovr := Num w\<rparr>]"
  have h1r: "r < length h1" "h1 ! r = (h ! r)\<lparr>ovr := Num w\<rparr>" using r by (simp_all add: h1_def)
  show ?thesis
  proof (cases skipPot)
    case True
    with run have h2: "h2 = h1[r := (h1 ! r)\<lparr>pos := (case p_pos p of Some s \<Rightarrow> s | None \<Rightarrow> player_pos e (h1 ! r))\<rparr>]"
      by (auto simp: rateBasketball_def Let_def h1_def w_def split: option.splits)
    have "h2 ! r = (h ! r)\<lparr>ovr := Num w, pot := pot (h ! r),
                      pos := (case p_pos p of Some s \<Rightarrow> s
                              | None \<Rightarrow> player_pos e ((h ! r)\<lparr>ovr := Num w, pot := pot (h ! r)\<rparr>))\<rparr>"
      using h1r by (simp add: h2 split: option.split)
    moreover have "r < length h2" using h1r by (simp add: h2)
    ultimately show ?thesis using True unfolding w_def
      by (intro exI[of _ "pot (h ! r)"]) simp
  next
    case False
    obtain rb hb gb where b: "bootstrapPot e r age None h1 g = (rb, hb, gb)"
      by (cases "bootstrapPot e r age None h1 g") auto
    from run False b obtain v where v: "rb = Inr v"
      by (cases rb) (auto simp: rateBasketball_def Let_def h1_def w_def)
    from bootstrapPot_heap[OF b] have f: "take (length h1) hb = h1" "length h1 \<le> length hb" by simp_all
    have hbr: "r < length hb" "hb ! r = (h ! r)\<lparr>ovr := Num w\<rparr>"
      using f h1r take_nth_same[OF f(1) h1r(1)] by simp_all
    define h3 where "h3 = hb[r := (hb ! r)\<lparr>pot := v\<rparr>]"
    from run False b v have h2: "h2 = h3[r := (h3 ! r)\<lparr>pos := (case p_pos p of Some s \<Rightarrow> s | None \<Rightarrow> player_pos e (h3 ! r))\<rparr>]"
      by (auto simp: rateBasketball_def Let_def h1_def w_def h3_def split: option.splits)
    have h3r: "r < length h3" "h3 ! r = (h ! r)\<lparr>ovr := Num w, pot := v\<rparr>"
      using hbr by (simp_all add: h3_def)
    have "h2 ! r = (h ! r)\<lparr>ovr := Num w, pot := v,
                      pos := (case p_pos p of Some s \<Rightarrow> s
                              | None \<Rightarrow> player_pos e ((h ! r)\<lparr>ovr := Num w, pot := v\<rparr>))\<rparr>"
      using h3r by (simp add: h2 split: option.split)
    moreover have "r < length h2" using h3r by (simp add: h2)
    moreover have "\<exists>hi gi hj gj. r < length hi \<and> hi ! r = (h ! r)\<lparr>ovr := Num w\<rparr> \<and>
                    bootstrapPot e r age None hi gi = (Inr v, hj, gj)"
      using b v h1r by blast
    ultimately show ?thesis using False unfolding w_def
      by (intro exI[of _ v]) simp
  qed
qed

lemma ratePositions_obj:
  assumes run: "ratePositions e p r age skipPot h g = (Inr u, h2, g2)" and r: "r < length h"
    and red: "ovrsReduce e (h ! r) (POSITIONS e) ([], None, None) = (ovrs1, pos1, max1)"
  shows "\<exists>s1 pots1. pos1 = Some s1 \<and> r < length h2 \<and>
           h2 ! r = (h ! r)\<lparr>ovrs := ovrs1, pots := pots1, ovr := lookup ovrs1 s1,
                      pot := lookup pots1 s1,
                      pos := (case p_pos p of Some s \<Rightarrow> s | None \<Rightarrow> s1)\<rparr> \<and>
           (if skipPot then pots1 = pots (h ! r)
            else (\<exists>hb gb. potsReduce e r age (POSITIONS e) []
                             (h[r := (h ! r)\<lparr>ovrs := ovrs1\<rparr>]) g = (Inr pots1, hb, gb)))"
proof -
  define h1 where "h1 = h[r := (h ! r)\<lparr>ovrs := ovrs1\<rparr>]"
  have h1r: "r < length h1" "h1 ! r = (h ! r)\<lparr>ovrs := ovrs1\<rparr>" using r by (simp_all add: h1_def)
  show ?thesis
  proof (cases skipPot)
    case True
    with run red obtain s1 where s1: "pos1 = Some s1"
      by (cases pos1) (auto simp: ratePositions_def Let_def)
    define h3 where "h3 = h1[r := (h1 ! r)\<lparr>ovr := lookup (ovrs (h1 ! r)) s1\<rparr>]"
    define h4 where "h4 = h3[r := (h3 ! r)\<lparr>pot := lookup (pots (h3 ! r)) s1\<rparr>]"
    from run red True s1
    have h2: "h2 = h4[r := (h4 ! r)\<lparr>pos := (case p_pos p of Some s \<Rightarrow> s | None \<Rightarrow> s1)\<rparr>]"
      by (auto simp: ratePositions_def Let_def h1_def h3_def h4_def split: option.splits)
    have "h2 ! r = (h ! r)\<lparr>ovrs := ovrs1, pots := pots (h ! r), ovr := lookup ovrs1 s1,
                      pot := lookup (pots (h ! r)) s1,
                      pos := (case p_pos p of Some s \<Rightarrow> s | None \<Rightarrow> s1)\<rparr>"
      using h1r by (simp add: h2 h4_def h3_def)
    moreover have "r < length h2" using h1r by (simp add: h2 h4_def h3_def)
    ultimately show ?thesis using True s1
      by (intro exI[of _ s1] exI[of _ "pots (h ! r)"]) simp
  next
    case False
    obtain rb hb gb where b: "potsReduce e r age (POSITIONS e) [] h1 g = (rb, hb, gb)"
      by (cases "potsReduce e r age (POSITIONS e) [] h1 g") auto
    from run red False b obtain pots1 where v: "rb = Inr pots1"
      by (cases rb) (auto simp: ratePositions_def Let_def h1_def)
    from potsReduce_heap[OF b] have f: "take (length h1) hb = h1" "length h1 \<le> length hb" by simp_all
    have hbr: "r < length hb" "hb ! r = (h ! r)\<lparr>ovrs := ovrs1\<rparr>"
      using f h1r take_nth_same[OF f(1) h1r(1)] by simp_all
    define h2a where "h2a = hb[r := (hb ! r)\<lparr>pots := pots1\<rparr>]"
    from run red False b v obtain s1 where s1: "pos1 = Some s1"
      by (cases pos1) (auto simp: ratePositions_def Let_def h1_def)
    define h3 where "h3 = h2a[r := (h2a ! r)\<lparr>ovr := lookup (ovrs (h2a ! r)) s1\<rparr>]"
    define h4 where "h4 = h3[r := (h3 ! r)\<lparr>pot := lookup (pots (h3 ! r)) s1\<rparr>]"
    from run red False b v s1
    have h2: "h2 = h4[r := (h4 ! r)\<lparr>pos := (case p_pos p of Some s \<Rightarrow> s | None \<Rightarrow> s1)\<rparr>]"
      by (auto simp: ratePositions_def Let_def h1_def h2a_def h3_def h4_def split: option.splits)
    have "h2 ! r = (h ! r)\<lparr>ovrs := ovrs1, pots := pots1, ovr := lookup ovrs1 s1,
                      pot := lookup pots1 s1,
                      pos := (case p_pos p of Some s \<Rightarrow> s | None \<Rightarrow> s1)\<rparr>"
      using hbr by (simp add: h2 h4_def h3_def h2a_def)
    moreover have "r < length h2" using hbr by (simp add: h2 h4_def h3_def h2a_def)
    moreover have "\<exists>hb gb. potsReduce e r age (POSITIONS e) [] (h[r := (h ! r)\<lparr>ovrs := ovrs1\<rparr>]) g = (Inr pots1, hb, gb)"
      using b v by (auto simp: h1_def)
    ultimately show ?thesis using False s1
      by (intro exI[of _ s1] exI[of _ pots1]) simp
  qed
qed

lemma develop_obj:
  assumes run: "develop e p years np cr skipPot h g = (Inr u, p', h', g')"
  shows "p_ratings p \<noteq> [] \<and>
         (\<exists>age p1 h1 g1 h2 g2.
            developLoop e (last (p_ratings p)) np years cr 0
              (season (h ! last (p_ratings p)) - year (born p), p, h, g) = (age, p1, h1, g1) \<and>
            (if SPORT e = ''basketball''
             then rateBasketball e p1 (last (p_ratings p)) age skipPot h1 g1
             else ratePositions e p1 (last (p_ratings p)) age skipPot h1 g1) = (Inr (), h2, g2) \<and>
            h' = h2[last (p_ratings p) := (h2 ! last (p_ratings p))
                      \<lparr>skills := skills_of e (h2 ! last (p_ratings p))\<rparr>])"
proof -
  let ?r = "last (p_ratings p)"
  from run have ne: "p_ratings p \<noteq> []" by (auto simp: develop_def split: if_splits)
  obtain age p1 h1 g1 where
    loop: "developLoop e ?r np years cr 0 (season (h ! ?r) - year (born p), p, h, g) = (age, p1, h1, g1)"
    by (cases "developLoop e ?r np years cr 0 (season (h ! ?r) - year (born p), p, h, g)") auto
  obtain res h2 g2 where
    rate: "(if SPORT e = ''basketball'' then rateBasketball e p1 ?r age skipPot h1 g1
            else ratePositions e p1 ?r age skipPot h1 g1) = (res, h2, g2)"
    by (cases "if SPORT e = ''basketball'' then rateBasketball e p1 ?r age skipPot h1 g1
            else ratePositions e p1 ?r age skipPot h1 g1") auto
  from run ne loop rate have res: "res = Inr ()"
    by (cases res) (simp_all add: develop_def Let_def)
  from run ne loop rate res have "h' = h2[?r := (h2 ! ?r)\<lparr>skills := skills_of e (h2 ! ?r)\<rparr>]"
    by (simp add: develop_def Let_def)
  with ne loop rate res show ?thesis by blast
qed

lemma bootstrapPot_estimated:
  assumes "a < length h" and "bootstrapPot e a age p h g = (Inr v, h', g')"
    and "ovrOf (h ! a) p = Num w"
    and "SPORT e = ''football'' \<longrightarrow> p \<notin> Some ` set objectPrototypeKeys"
  shows "\<exists>q. v = Num q \<and> estimated e p w q"
  using bootstrapPot_value[OF assms] by (simp add: estimated_def)

lemma potsReduce_keys:
  assumes "potsReduce e r age ps [] h g = (Inr pots1, h', g')" and "r < length h"
  shows "fst ` set pots1 = set ps"
proof -
  from potsReduce_map[OF assms]
  have "\<forall>q. q \<notin> set ps \<longrightarrow> map_of pots1 q = None" and "\<forall>q \<in> set ps. \<exists>v. map_of pots1 q = Some v"
    by auto
  then have "dom (map_of pots1) = set ps" by (auto simp: dom_def)
  then show ?thesis by (simp add: dom_map_of_conv_image_fst)
qed

lemma lookup_ovrsReduce:
  assumes "ovrsReduce e rt ps ([], None, None) = (ovrs1, pos1, max1)" and "q \<in> set ps"
  shows "lookup ovrs1 q = Num (player_ovr e rt (Some q))"
  using ovrsReduce_map[OF assms(1), of q] assms(2) by (simp add: lookup_def)

text \<open>Overall and potential of the basketball branch.\<close>

lemma develop_values_basketball:
  assumes run: "develop e p years np cr skipPot h g = (Inr u, p', h', g')"
    and r: "last (p_ratings p) < length h"
    and loop: "developLoop e (last (p_ratings p)) np years cr 0
                 (season (h ! last (p_ratings p)) - year (born p), p, h, g) = (age, p1, h1, g1)"
    and sport: "SPORT e = ''basketball''"
  shows "ovr (h' ! last (p_ratings p)) = Num (player_ovr e (h1 ! last (p_ratings p)) None) \<and>
         (if skipPot then pot (h' ! last (p_ratings p)) = pot (h1 ! last (p_ratings p))
          else (\<exists>q. pot (h' ! last (p_ratings p)) = Num q \<and>
                  estimated e None (player_ovr e (h1 ! last (p_ratings p)) None) q))"
proof -
  let ?r = "last (p_ratings p)"
  from develop_obj[OF run] loop sport obtain h2 g2 where
    rate: "rateBasketball e p1 ?r age skipPot h1 g1 = (Inr (), h2, g2)" and
    h': "h' = h2[?r := (h2 ! ?r)\<lparr>skills := skills_of e (h2 ! ?r)\<rparr>]"
    by auto
  have r1: "?r < length h1" using developLoop_heap_length[OF loop] r by simp
  define w where "w = player_ovr e (h1 ! ?r) None"
  from rateBasketball_obj[OF rate r1] obtain v where
    r2: "?r < length h2" and
    obj: "h2 ! ?r = (h1 ! ?r)\<lparr>ovr := Num w, pot := v,
                      pos := (case p_pos p1 of Some s \<Rightarrow> s
                              | None \<Rightarrow> player_pos e ((h1 ! ?r)\<lparr>ovr := Num w, pot := v\<rparr>))\<rparr>" and
    est: "if skipPot then v = pot (h1 ! ?r)
          else (\<exists>hi gi hj gj. ?r < length hi \<and> hi ! ?r = (h1 ! ?r)\<lparr>ovr := Num w\<rparr> \<and>
                    bootstrapPot e ?r age None hi gi = (Inr v, hj, gj))"
    unfolding w_def by blast
  have fin: "ovr (h' ! ?r) = Num w" "pot (h' ! ?r) = v" using r2 obj by (simp_all add: h')
  show ?thesis
  proof (cases skipPot)
    case True
    with est fin show ?thesis by (simp add: w_def)
  next
    case False
    with est obtain hi gi hj gj where b: "?r < length hi" "hi ! ?r = (h1 ! ?r)\<lparr>ovr := Num w\<rparr>"
      "bootstrapPot e ?r age None hi gi = (Inr v, hj, gj)" by auto
    have "ovrOf (hi ! ?r) None = Num w" using b(2) by (simp add: ovrOf_def)
    from bootstrapPot_estimated[OF b(1) b(3) this] fin False show ?thesis by (simp add: w_def)
  qed
qed

text \<open>Overalls, potentials and position of the branch with several positions.\<close>

lemma develop_values_positions:
  assumes run: "develop e p years np cr skipPot h g = (Inr u, p', h', g')"
    and r: "last (p_ratings p) < length h"
    and loop: "developLoop e (last (p_ratings p)) np years cr 0
                 (season (h ! last (p_ratings p)) - year (born p), p, h, g) = (age, p1, h1, g1)"
    and sport: "SPORT e \<noteq> ''basketball''"
    and red: "ovrsReduce e (h1 ! last (p_ratings p)) (POSITIONS e) ([], None, None) = (ovrs1, pos1, max1)"
  shows "\<exists>s1. pos1 = Some s1 \<and> s1 \<in> set (POSITIONS e) \<and> s1 \<notin> set bannedPositions \<and>
           (\<forall>q \<in> set (POSITIONS e). q \<notin> set bannedPositions \<longrightarrow>
              player_ovr e (h1 ! last (p_ratings p)) (Some q)
                \<le> player_ovr e (h1 ! last (p_ratings p)) (Some s1)) \<and>
           ovrs (h' ! last (p_ratings p)) = ovrs1 \<and>
           ovr (h' ! last (p_ratings p)) = lookup ovrs1 s1 \<and>
           pot (h' ! last (p_ratings p)) = lookup (pots (h' ! last (p_ratings p))) s1 \<and>
           pos (h' ! last (p_ratings p)) = (case p_pos p of Some s \<Rightarrow> s | None \<Rightarrow> s1) \<and>
           (if skipPot then pots (h' ! last (p_ratings p)) = pots (h1 ! last (p_ratings p))
            else fst ` set (pots (h' ! last (p_ratings p))) = set (POSITIONS e) \<and>
                 ([] \<notin> set (POSITIONS e) \<and>
                  (SPORT e = ''football'' \<longrightarrow> set (POSITIONS e) \<inter> set objectPrototypeKeys = {}) \<longrightarrow>
                    (\<forall>q \<in> set (POSITIONS e). \<exists>v.
                        lookup (pots (h' ! last (p_ratings p))) q = Num v \<and>
                        estimated e (Some q) (player_ovr e (h1 ! last (p_ratings p)) (Some q)) v)))"
proof -
  let ?r = "last (p_ratings p)"
  let ?f = "\<lambda>q. player_ovr e (h1 ! ?r) (Some q)"
  from develop_obj[OF run] loop sport obtain h2 g2 where
    rate: "ratePositions e p1 ?r age skipPot h1 g1 = (Inr (), h2, g2)" and
    h': "h' = h2[?r := (h2 ! ?r)\<lparr>skills := skills_of e (h2 ! ?r)\<rparr>]"
    by auto
  have r1: "?r < length h1" using developLoop_heap_length[OF loop] r by simp
  have pp: "p_pos p1 = p_pos p" using developLoop_player[OF loop] by simp
  from ratePositions_obj[OF rate r1 red] obtain s1 pots1 where
    s1: "pos1 = Some s1" and r2: "?r < length h2" and
    obj: "h2 ! ?r = (h1 ! ?r)\<lparr>ovrs := ovrs1, pots := pots1, ovr := lookup ovrs1 s1,
                      pot := lookup pots1 s1,
                      pos := (case p_pos p1 of Some s \<Rightarrow> s | None \<Rightarrow> s1)\<rparr>" and
    est: "if skipPot then pots1 = pots (h1 ! ?r)
          else (\<exists>hb gb. potsReduce e ?r age (POSITIONS e) []
                           (h1[?r := (h1 ! ?r)\<lparr>ovrs := ovrs1\<rparr>]) g1 = (Inr pots1, hb, gb))"
    by blast
  have fin: "ovrs (h' ! ?r) = ovrs1" "pots (h' ! ?r) = pots1" "ovr (h' ! ?r) = lookup ovrs1 s1"
    "pot (h' ! ?r) = lookup pots1 s1" "pos (h' ! ?r) = (case p_pos p of Some s \<Rightarrow> s | None \<Rightarrow> s1)"
    using r2 obj pp by (simp_all add: h')
  from ovrsReduce_choice[OF red] s1
  have ch: "s1 \<in> set (POSITIONS e)" "s1 \<notin> set bannedPositions"
    "\<forall>q \<in> set (POSITIONS e). q \<notin> set bannedPositions \<longrightarrow> ?f q \<le> ?f s1"
    by simp_all
  have potpart: "if skipPot then pots1 = pots (h1 ! ?r)
            else fst ` set pots1 = set (POSITIONS e) \<and>
                 ([] \<notin> set (POSITIONS e) \<and>
                  (SPORT e = ''football'' \<longrightarrow> set (POSITIONS e) \<inter> set objectPrototypeKeys = {}) \<longrightarrow>
                    (\<forall>q \<in> set (POSITIONS e). \<exists>v. lookup pots1 q = Num v \<and> estimated e (Some q) (?f q) v))"
  proof (cases skipPot)
    case True
    with est show ?thesis by simp
  next
    case False
    define hx where "hx = h1[?r := (h1 ! ?r)\<lparr>ovrs := ovrs1\<rparr>]"
    from est False obtain hb gb where
      pr: "potsReduce e ?r age (POSITIONS e) [] hx g1 = (Inr pots1, hb, gb)"
      by (auto simp: hx_def)
    have rx: "?r < length hx" "hx ! ?r = (h1 ! ?r)\<lparr>ovrs := ovrs1\<rparr>" using r1 by (simp_all add: hx_def)
    have keys: "fst ` set pots1 = set (POSITIONS e)" using potsReduce_keys[OF pr rx(1)] .
    have each: "\<exists>v. lookup pots1 q = Num v \<and> estimated e (Some q) (?f q) v"
      if q: "q \<in> set (POSITIONS e)" and ne: "[] \<notin> set (POSITIONS e)"
        and inh: "SPORT e = ''football'' \<longrightarrow> set (POSITIONS e) \<inter> set objectPrototypeKeys = {}" for q
    proof -
      from potsReduce_map[OF pr rx(1)] q obtain hi gi hj gj v where
        b: "?r < length hi" "hi ! ?r = hx ! ?r" "bootstrapPot e ?r age (Some q) hi gi = (Inr v, hj, gj)"
          "map_of pots1 q = Some v"
        by blast
      from q ne have "q \<noteq> []" by auto
      then have "ovrOf (hi ! ?r) (Some q) = lookup ovrs1 q" using b(2) rx(2) by (simp add: ovrOf_def)
      also have "\<dots> = Num (?f q)" using lookup_ovrsReduce[OF red q] .
      finally have cur: "ovrOf (hi ! ?r) (Some q) = Num (?f q)" .
      from q inh have "SPORT e = ''football'' \<longrightarrow> Some q \<notin> Some ` set objectPrototypeKeys" by auto
      from bootstrapPot_estimated[OF b(1) b(3) cur this]
      obtain v' where "v = Num v'" "estimated e (Some q) (?f q) v'"
        by blast
      moreover have "lookup pots1 q = v" using b(4) by (simp add: lookup_def)
      ultimately show ?thesis by simp
    qed
    from False keys each show ?thesis by auto
  qed
  from s1 ch fin potpart show ?thesis by (intro exI[of _ s1]) (simp split: if_splits)
qed

subsection \<open>Running the example\<close>

lemmas example_simps =
  exampleEnv_def exampleRatings_def examplePlayer_def develop_def developLoop.simps
  developIter_def seasonBody_def rateBasketball_def ratePositions_def bootstrapPot_def
  potEstimator_def potEstimator_football_def coeffsByPos_def bound_def Math_round_def
  lookup_def ovrOf_def bannedPositions_def Let_def

lemma floor_numeral_divide:
  "\<lfloor>(numeral a :: rat) / numeral b\<rfloor> = numeral a div numeral b"
  using floor_divide_of_int_eq[of "numeral a" "numeral b", where ?'a = rat] by simp

subsection \<open>Ages and weight in the seasons loop\<close>

lemma developLoop_inc:
  "np \<or> years > 1 \<Longrightarrow> i \<le> years \<Longrightarrow>
   developLoop e r np years cr i (age, s) =
     (age + (years - i), foldl (\<lambda>s a. seasonBody e r cr a s) s [age + 1..age + (years - i)])"
proof (induction "nat (years - i)" arbitrary: i age s)
  case 0
  then have "i = years" by simp
  then show ?case by (subst developLoop.simps) simp
next
  case (Suc n)
  then have lt: "i < years" and n: "n = nat (years - (i + 1))" and le: "i + 1 \<le> years" by simp_all
  have it: "developIter e r np years cr (age, s) = (age + 1, seasonBody e r cr (age + 1) s)"
    using Suc.prems(1) by (simp add: developIter_def Let_def)
  have "developLoop e r np years cr i (age, s)
        = developLoop e r np years cr (i + 1) (age + 1, seasonBody e r cr (age + 1) s)"
    using lt it by (subst developLoop.simps) simp
  also have "\<dots> = (age + 1 + (years - (i + 1)),
                    foldl (\<lambda>s a. seasonBody e r cr a s) (seasonBody e r cr (age + 1) s)
                      [age + 1 + 1..age + 1 + (years - (i + 1))])"
    using Suc.hyps(1)[OF n Suc.prems(1) le] .
  also have "\<dots> = (age + (years - i),
                    foldl (\<lambda>s a. seasonBody e r cr a s) s [age + 1..age + (years - i)])"
  proof -
    have e1: "age + 1 + (years - (i + 1)) = age + (years - i)" by simp
    have "age + 1 \<le> age + (years - i)" using lt by simp
    then have e2: "[age + 1..age + (years - i)] = (age + 1) # [age + 1 + 1..age + (years - i)]"
      by (rule upto_rec1)
    show ?thesis unfolding e1 e2 by simp
  qed
  finally show ?case .
qed

lemma developLoop_one:
  "developLoop e r False 1 cr 0 (age, s) = (age, seasonBody e r cr age s)"
  by (subst developLoop.simps, subst developLoop.simps) (simp add: developIter_def Let_def)

text \<open>
  What a pass through the body does to the ratings object and the generator: the call
  of \<^verbatim>\<open>developSeason\<close> with the age and the coaching rank, then, in the football
  build, the call of \<^verbatim>\<open>genWeight\<close>.
\<close>

lemma seasonBody_call:
  assumes "r < length h" and "seasonBody e r cr a (p, h, g) = (p', h', g')"
  shows "length h' = length h \<and>
         (h' ! r, g') =
           (case player_developSeason e (h ! r) a (Some cr) g of
              (rt', g1) \<Rightarrow>
                (rt', if SPORT e = ''football''
                      then snd (player_genWeight e (hgt rt') (stre rt') g1) else g1))"
proof -
  obtain rt g1 where ds: "player_developSeason e (h ! r) a (Some cr) g = (rt, g1)"
    by (cases "player_developSeason e (h ! r) a (Some cr) g") auto
  obtain nw g2 where gw: "player_genWeight e (hgt rt) (stre rt) g1 = (nw, g2)"
    by (cases "player_genWeight e (hgt rt) (stre rt) g1") auto
  from assms ds gw show ?thesis
    by (auto simp: seasonBody_def Let_def split: if_splits)
qed

lemma seasons_calls:
  "r < length h \<Longrightarrow> foldl (\<lambda>s a. seasonBody e r cr a s) (p, h, g) as = (p', h', g') \<Longrightarrow>
   length h' = length h \<and>
   foldl (\<lambda>(rt, g) a.
            case player_developSeason e rt a (Some cr) g of
              (rt', g1) \<Rightarrow>
                (rt', if SPORT e = ''football''
                      then snd (player_genWeight e (hgt rt') (stre rt') g1) else g1))
     (h ! r, g) as = (h' ! r, g')"
proof (induction as arbitrary: p h g)
  case Nil
  then show ?case by simp
next
  case (Cons a as)
  obtain p1 h1 g1 where b: "seasonBody e r cr a (p, h, g) = (p1, h1, g1)"
    by (cases "seasonBody e r cr a (p, h, g)") auto
  from seasonBody_call[OF Cons.prems(1) b]
  have len: "length h1 = length h" and
    step: "(h1 ! r, g1) =
           (case player_developSeason e (h ! r) a (Some cr) g of
              (rt', g1) \<Rightarrow>
                (rt', if SPORT e = ''football''
                      then snd (player_genWeight e (hgt rt') (stre rt') g1) else g1))"
    by simp_all
  from Cons.prems(2) b
  have rest: "foldl (\<lambda>s a. seasonBody e r cr a s) (p1, h1, g1) as = (p', h', g')" by simp
  from Cons.prems(1) len have r1: "r < length h1" by simp
  from Cons.IH[OF r1 rest] len step[symmetric] show ?case by simp
qed

text \<open>The ages at which the loop runs the body, and the age it ends with.\<close>

lemma developLoop_seasons:
  assumes "0 \<le> years"
  shows "developLoop e r np years cr 0 (age, s) =
           (if np \<or> years > 1 then age + years else age,
            foldl (\<lambda>s a. seasonBody e r cr a s) s
              (if np \<or> years > 1 then [age + 1..age + years]
               else if years = 1 then [age] else []))"
proof (cases "np \<or> years > 1")
  case True
  with developLoop_inc[OF True, of 0 e r cr age s] assms show ?thesis by simp
next
  case False
  show ?thesis
  proof (cases "years = 1")
    case True
    with False developLoop_one[of e r cr age s] show ?thesis by simp
  next
    case no: False
    with False assms have "years = 0" by simp
    with False show ?thesis by (subst developLoop.simps) simp
  qed
qed

text \<open>
  Claim C5. \<^verbatim>\<open>develop\<close> enters the loop with the age
  \<open>age0 = season - born.year\<close> of the last ratings row. When \<open>newPlayer\<close> is set or
  \<open>years > 1\<close>, it calls \<^verbatim>\<open>developSeason\<close> (with the coaching rank) at the ages
  \<open>age0 + 1, \<dots>, age0 + years\<close>, in this order, each call on the ratings the call
  before left; for one season of an existing player the single call is at \<open>age0\<close>.
  What is stated is the outcome: the fields of the ratings object that
  \<^verbatim>\<open>develop\<close> does not assign afterwards are those of the ratings \<open>rtL\<close> that
  these calls produce.
\<close>

theorem develop_ages:
  assumes run: "develop e p years newPlayer cr skipPot h g = (Inr u, p', h', g')"
    and r: "r = last (p_ratings p)" "r < length h"
    and years: "0 \<le> years"
    and age0: "age0 = season (h ! r) - year (born p)"
    and ages: "ages = (if newPlayer \<or> years > 1 then [age0 + 1..age0 + years]
                       else if years = 1 then [age0] else [])"
    and calls: "foldl (\<lambda>(rt, g) a.
                  case player_developSeason e rt a (Some cr) g of
                    (rt', g1) \<Rightarrow>
                      (rt', if SPORT e = ''football''
                            then snd (player_genWeight e (hgt rt') (stre rt') g1) else g1))
                  (h ! r, g) ages = (rtL, gL)"
  shows "season (h' ! r) = season rtL \<and> hgt (h' ! r) = hgt rtL \<and>
         stre (h' ! r) = stre rtL \<and> attrs (h' ! r) = attrs rtL"
proof -
  from develop_obj[OF run] obtain age p1 h1 g1 h2 g2 where
    loop: "developLoop e r newPlayer years cr 0 (age0, p, h, g) = (age, p1, h1, g1)" and
    rate: "(if SPORT e = ''basketball''
            then rateBasketball e p1 r age skipPot h1 g1
            else ratePositions e p1 r age skipPot h1 g1) = (Inr (), h2, g2)" and
    h': "h' = h2[r := (h2 ! r)\<lparr>skills := skills_of e (h2 ! r)\<rparr>]"
    unfolding r(1) age0 by blast
  from loop developLoop_seasons[OF years, of e r newPlayer cr age0 "(p, h, g)"] ages
  have "foldl (\<lambda>s a. seasonBody e r cr a s) (p, h, g) ages = (p1, h1, g1)" by simp
  from seasons_calls[OF r(2) this] calls
  have len: "length h1 = length h" and rtL: "h1 ! r = rtL" by simp_all
  have r1: "r < length h1" using len r(2) by simp
  have "r < length h2 \<and> season (h2 ! r) = season rtL \<and> hgt (h2 ! r) = hgt rtL \<and>
        stre (h2 ! r) = stre rtL \<and> attrs (h2 ! r) = attrs rtL"
  proof (cases "SPORT e = ''basketball''")
    case True
    with rate have "rateBasketball e p1 r age skipPot h1 g1 = (Inr (), h2, g2)" by simp
    from rateBasketball_obj[OF this r1] rtL show ?thesis by auto
  next
    case False
    with rate have rp: "ratePositions e p1 r age skipPot h1 g1 = (Inr (), h2, g2)" by simp
    obtain ovrs1 pos1 max1 where
      red: "ovrsReduce e (h1 ! r) (POSITIONS e) ([], None, None) = (ovrs1, pos1, max1)"
      by (cases "ovrsReduce e (h1 ! r) (POSITIONS e) ([], None, None)") auto
    from ratePositions_obj[OF rp r1 red] rtL show ?thesis by auto
  qed
  then show ?thesis by (simp add: h')
qed

theorem develop_ages_witness:
  "develop (recordingEnv ''football'' [''QB'', ''RB'']) examplePlayer 3 False 15.5 True [exampleRatings] 0
     = (Inr (), examplePlayer\<lparr>weight := 230\<rparr>,
        [exampleRatings\<lparr>attrs := [(''age'', 21), (''age'', 22), (''age'', 23)]\<rparr>], 6) \<and>
   develop (recordingEnv ''football'' [''QB'', ''RB'']) examplePlayer 1 False 15.5 True [exampleRatings] 0
     = (Inr (), examplePlayer\<lparr>weight := 210\<rparr>, [exampleRatings\<lparr>attrs := [(''age'', 20)]\<rparr>], 2) \<and>
   (0 :: nat) = last (p_ratings examplePlayer) \<and> (0 :: nat) < length [exampleRatings] \<and>
   (0 :: int) \<le> 3 \<and> (0 :: int) \<le> 1 \<and>
   (20 :: int) = season ([exampleRatings] ! 0) - year (born examplePlayer) \<and>
   attrs (exampleRatings\<lparr>attrs := [(''age'', 21), (''age'', 22), (''age'', 23)]\<rparr>)
     = [(''age'', 21), (''age'', 22), (''age'', 23)] \<and>
   attrs (exampleRatings\<lparr>attrs := [(''age'', 20)]\<rparr>) = [(''age'', 20)]"
proof -
  let ?e = "recordingEnv ''football'' [''QB'', ''RB'']"
  let ?F = "\<lambda>(rt, g) a.
              case player_developSeason ?e rt a (Some 15.5) g of
                (rt', g1) \<Rightarrow>
                  (rt', if SPORT ?e = ''football''
                        then snd (player_genWeight ?e (hgt rt') (stre rt') g1) else g1)"
  have a: "develop ?e examplePlayer 3 False 15.5 True [exampleRatings] 0
     = (Inr (), examplePlayer\<lparr>weight := 230\<rparr>,
        [exampleRatings\<lparr>attrs := [(''age'', 21), (''age'', 22), (''age'', 23)]\<rparr>], 6)"
    by (simp add: recordingEnv_def example_simps)
  have b: "develop ?e examplePlayer 1 False 15.5 True [exampleRatings] 0
     = (Inr (), examplePlayer\<lparr>weight := 210\<rparr>, [exampleRatings\<lparr>attrs := [(''age'', 20)]\<rparr>], 2)"
    by (simp add: recordingEnv_def example_simps)
  have c: "(0 :: nat) = last (p_ratings examplePlayer)" by (simp add: examplePlayer_def)
  have d: "(0 :: nat) < length [exampleRatings]" by simp
  have y: "(20 :: int) = season ([exampleRatings] ! 0) - year (born examplePlayer)"
    by (simp add: exampleRatings_def examplePlayer_def)
  have l3: "[21, 22, 23] = (if False \<or> (3 :: int) > 1 then [20 + 1..20 + 3]
                            else if (3 :: int) = 1 then [20] else [])"
    by (simp add: upto_rec1)
  have l1: "[20] = (if False \<or> (1 :: int) > 1 then [20 + 1..20 + 1]
                    else if (1 :: int) = 1 then [20 :: int] else [])"
    by simp
  have f3: "foldl ?F ([exampleRatings] ! 0, 0) [21, 22, 23]
              = (exampleRatings\<lparr>attrs := [(''age'', 21), (''age'', 22), (''age'', 23)]\<rparr>, 6)"
    by (simp add: recordingEnv_def exampleEnv_def exampleRatings_def)
  have f1: "foldl ?F ([exampleRatings] ! 0, 0) [20]
              = (exampleRatings\<lparr>attrs := [(''age'', 20)]\<rparr>, 2)"
    by (simp add: recordingEnv_def exampleEnv_def exampleRatings_def)
  from develop_ages[OF a c d _ y l3 f3]
  have "attrs ([exampleRatings\<lparr>attrs := [(''age'', 21), (''age'', 22), (''age'', 23)]\<rparr>] ! 0)
          = attrs (exampleRatings\<lparr>attrs := [(''age'', 21), (''age'', 22), (''age'', 23)]\<rparr>)"
    by simp
  moreover from develop_ages[OF b c d _ y l1 f1]
  have "attrs ([exampleRatings\<lparr>attrs := [(''age'', 20)]\<rparr>] ! 0)
          = attrs (exampleRatings\<lparr>attrs := [(''age'', 20)]\<rparr>)"
    by simp
  ultimately show ?thesis using a b c d y by simp
qed

text \<open>
  Claim C6. In one pass of the loop in the football build, with \<open>newWeight\<close> the
  candidate that \<^verbatim>\<open>genWeight\<close> returns for the ratings just developed: the weight
  becomes the old weight plus 10 when the candidate is more than 10 above it, the old
  weight minus 10 when the candidate is more than 10 below it, and the candidate
  otherwise. So the weight never moves by more than 10, and a candidate 15 above the
  old weight moves it by exactly 10. In the other builds the weight is unchanged.
\<close>

theorem developIter_weight:
  assumes "developIter e r newPlayer years cr (age, p, h, g) = (age', p', h', g')"
    and "player_developSeason e (h ! r) age' (Some cr) g = (rt, g1)"
    and "player_genWeight e (hgt (h[r := rt] ! r)) (stre (h[r := rt] ! r)) g1 = (newWeight, g2)"
  shows "(SPORT e = ''football'' \<longrightarrow>
            weight p' = (if newWeight - weight p > 10 then weight p + 10
                         else if newWeight - weight p < - 10 then weight p - 10
                         else newWeight) \<and>
            \<bar>weight p' - weight p\<bar> \<le> 10 \<and>
            (newWeight = weight p + 15 \<longrightarrow> weight p' - weight p = 10)) \<and>
         (SPORT e \<noteq> ''football'' \<longrightarrow> weight p' = weight p)"
proof -
  from assms(1) have age': "age' = (if newPlayer \<or> years > 1 then age + 1 else age)"
    and body: "seasonBody e r cr age' (p, h, g) = (p', h', g')"
    by (auto simp: developIter_def Let_def)
  from body assms(2,3) show ?thesis
    by (auto simp: seasonBody_def Let_def split: if_splits)
qed

theorem developIter_weight_witness:
  "developIter (exampleEnv ''football'' []) 0 False 1 15.5 (20, examplePlayer\<lparr>weight := 225\<rparr>, [exampleRatings], 0)
     = (20, examplePlayer\<lparr>weight := 235\<rparr>, [exampleRatings], 2) \<and>
   player_developSeason (exampleEnv ''football'' []) ([exampleRatings] ! 0) 20 (Some 15.5) 0 = (exampleRatings, 1) \<and>
   player_genWeight (exampleEnv ''football'' []) (hgt ([exampleRatings][0 := exampleRatings] ! 0))
       (stre ([exampleRatings][0 := exampleRatings] ! 0)) 1 = (240, 2) \<and>
   weight (examplePlayer\<lparr>weight := 235\<rparr>) - weight (examplePlayer\<lparr>weight := 225\<rparr>) = 10"
proof -
  let ?e = "exampleEnv ''football'' []"
  have a: "developIter ?e 0 False 1 15.5 (20, examplePlayer\<lparr>weight := 225\<rparr>, [exampleRatings], 0)
     = (20, examplePlayer\<lparr>weight := 235\<rparr>, [exampleRatings], 2)"
    by (simp add: developIter_def seasonBody_def exampleEnv_def exampleRatings_def examplePlayer_def)
  have b: "player_developSeason ?e ([exampleRatings] ! 0) 20 (Some 15.5) 0 = (exampleRatings, 1)"
    by (simp add: exampleEnv_def exampleRatings_def)
  have c: "player_genWeight ?e (hgt ([exampleRatings][0 := exampleRatings] ! 0))
       (stre ([exampleRatings][0 := exampleRatings] ! 0)) 1 = (240, 2)"
    by (simp add: exampleEnv_def exampleRatings_def)
  from developIter_weight[OF a b c] a b c show ?thesis by simp
qed

subsection \<open>Overalls per position and the primary position\<close>

text \<open>
  Claim C8. In a build with several positions, a successful \<^verbatim>\<open>develop\<close> stores in
  \<^verbatim>\<open>ratings.ovrs\<close> one entry for every position of \<^verbatim>\<open>POSITIONS\<close> and for
  no other key: the overall the strategy computes for that position from the ratings
  as the seasons loop left them (\<open>h1 ! r\<close>). The primary position \<open>s1\<close> is a position
  other than \<^verbatim>\<open>KR\<close> and \<^verbatim>\<open>PR\<close> whose overall is the largest among these;
  \<^verbatim>\<open>ratings.ovr\<close> and \<^verbatim>\<open>ratings.pot\<close> are the entries of \<open>s1\<close>, and
  \<^verbatim>\<open>ratings.pos\<close> is \<open>s1\<close> unless the player has a position of its own. Unless
  \<open>skipPot\<close> is set, \<^verbatim>\<open>ratings.pots\<close> too has exactly one entry per position,
  \<^verbatim>\<open>KR\<close> and \<^verbatim>\<open>PR\<close> included when they are positions.
\<close>

theorem develop_positions:
  assumes run: "develop e p years np cr skipPot h g = (Inr u, p', h', g')"
    and r: "r = last (p_ratings p)" "r < length h"
    and loop: "developLoop e r np years cr 0 (season (h ! r) - year (born p), p, h, g) = (age, p1, h1, g1)"
    and sport: "SPORT e \<noteq> ''basketball''"
  shows "(\<forall>q \<in> set (POSITIONS e). lookup (ovrs (h' ! r)) q = Num (player_ovr e (h1 ! r) (Some q))) \<and>
         fst ` set (ovrs (h' ! r)) = set (POSITIONS e) \<and>
         (\<exists>s1. s1 \<in> set (POSITIONS e) \<and> s1 \<noteq> ''KR'' \<and> s1 \<noteq> ''PR'' \<and>
            (\<forall>q \<in> set (POSITIONS e). q \<noteq> ''KR'' \<and> q \<noteq> ''PR'' \<longrightarrow>
               player_ovr e (h1 ! r) (Some q) \<le> player_ovr e (h1 ! r) (Some s1)) \<and>
            ovr (h' ! r) = Num (player_ovr e (h1 ! r) (Some s1)) \<and>
            pot (h' ! r) = lookup (pots (h' ! r)) s1 \<and>
            pos (h' ! r) = (case p_pos p of Some s \<Rightarrow> s | None \<Rightarrow> s1)) \<and>
         (\<not> skipPot \<longrightarrow> fst ` set (pots (h' ! r)) = set (POSITIONS e))"
proof -
  obtain ovrs1 pos1 max1 where
    red: "ovrsReduce e (h1 ! last (p_ratings p)) (POSITIONS e) ([], None, None) = (ovrs1, pos1, max1)"
    by (cases "ovrsReduce e (h1 ! last (p_ratings p)) (POSITIONS e) ([], None, None)") auto
  from develop_values_positions[OF run r(2)[unfolded r(1)] loop[unfolded r(1)] sport red]
  obtain s1 where s1: "s1 \<in> set (POSITIONS e)" "s1 \<notin> set bannedPositions"
    "\<forall>q \<in> set (POSITIONS e). q \<notin> set bannedPositions \<longrightarrow>
        player_ovr e (h1 ! r) (Some q) \<le> player_ovr e (h1 ! r) (Some s1)"
    "ovrs (h' ! r) = ovrs1" "ovr (h' ! r) = lookup ovrs1 s1"
    "pot (h' ! r) = lookup (pots (h' ! r)) s1"
    "pos (h' ! r) = (case p_pos p of Some s \<Rightarrow> s | None \<Rightarrow> s1)"
    "if skipPot then pots (h' ! r) = pots (h1 ! r) else fst ` set (pots (h' ! r)) = set (POSITIONS e)"
    unfolding r(1) by (auto split: if_splits)
  have all: "\<forall>q \<in> set (POSITIONS e). lookup (ovrs (h' ! r)) q = Num (player_ovr e (h1 ! r) (Some q))"
    using lookup_ovrsReduce[OF red] s1(4) by (simp add: r(1))
  have keys: "fst ` set (ovrs (h' ! r)) = set (POSITIONS e)"
    using ovrsReduce_keys[OF red] s1(4) by simp
  have o: "ovr (h' ! r) = Num (player_ovr e (h1 ! r) (Some s1))"
    using all s1(1,4,5) by simp
  have "\<exists>s1. s1 \<in> set (POSITIONS e) \<and> s1 \<noteq> ''KR'' \<and> s1 \<noteq> ''PR'' \<and>
            (\<forall>q \<in> set (POSITIONS e). q \<noteq> ''KR'' \<and> q \<noteq> ''PR'' \<longrightarrow>
               player_ovr e (h1 ! r) (Some q) \<le> player_ovr e (h1 ! r) (Some s1)) \<and>
            ovr (h' ! r) = Num (player_ovr e (h1 ! r) (Some s1)) \<and>
            pot (h' ! r) = lookup (pots (h' ! r)) s1 \<and>
            pos (h' ! r) = (case p_pos p of Some s \<Rightarrow> s | None \<Rightarrow> s1)"
    using s1(1,2,3,6,7) o by (intro exI[of _ s1]) (simp add: bannedPositions_def)
  with all keys s1(8) show ?thesis by (simp split: if_splits)
qed

theorem develop_positions_witness:
  "develop (exampleEnv ''football'' [''QB'', ''RB'', ''KR'']) examplePlayer 1 False 15.5 False [exampleRatings] 0
     = (Inr (), examplePlayer\<lparr>weight := 210\<rparr>,
        [exampleRatings\<lparr>ovr := Num 50, pot := Num 75,
           ovrs := [(''QB'', Num 50), (''RB'', Num 40), (''KR'', Num 99)],
           pots := [(''QB'', Num 75), (''RB'', Num 60), (''KR'', Num 100)], pos := ''QB''\<rparr>], 5) \<and>
   (0 :: nat) = last (p_ratings examplePlayer) \<and> (0 :: nat) < length [exampleRatings] \<and>
   developLoop (exampleEnv ''football'' [''QB'', ''RB'', ''KR'']) 0 False 1 15.5 0
       (season ([exampleRatings] ! 0) - year (born examplePlayer), examplePlayer, [exampleRatings], 0)
     = (20, examplePlayer\<lparr>weight := 210\<rparr>, [exampleRatings], 2) \<and>
   SPORT (exampleEnv ''football'' [''QB'', ''RB'', ''KR'']) \<noteq> ''basketball'' \<and>
   lookup (ovrs (exampleRatings\<lparr>ovr := Num 50, pot := Num 75,
           ovrs := [(''QB'', Num 50), (''RB'', Num 40), (''KR'', Num 99)],
           pots := [(''QB'', Num 75), (''RB'', Num 60), (''KR'', Num 100)], pos := ''QB''\<rparr>)) ''KR'' = Num 99"
proof -
  let ?e = "exampleEnv ''football'' [''QB'', ''RB'', ''KR'']"
  let ?rt = "exampleRatings\<lparr>ovr := Num 50, pot := Num 75,
           ovrs := [(''QB'', Num 50), (''RB'', Num 40), (''KR'', Num 99)],
           pots := [(''QB'', Num 75), (''RB'', Num 60), (''KR'', Num 100)], pos := ''QB''\<rparr>"
  have a: "develop ?e examplePlayer 1 False 15.5 False [exampleRatings] 0
     = (Inr (), examplePlayer\<lparr>weight := 210\<rparr>, [?rt], 5)"
    by (simp add: example_simps floor_numeral_divide)
  have b: "(0 :: nat) = last (p_ratings examplePlayer)" by (simp add: examplePlayer_def)
  have c: "(0 :: nat) < length [exampleRatings]" by simp
  have d: "developLoop ?e 0 False 1 15.5 0
       (season ([exampleRatings] ! 0) - year (born examplePlayer), examplePlayer, [exampleRatings], 0)
     = (20, examplePlayer\<lparr>weight := 210\<rparr>, [exampleRatings], 2)"
    by (simp add: example_simps)
  have s: "SPORT ?e \<noteq> ''basketball''" by (simp add: exampleEnv_def)
  from develop_positions[OF a b c d s]
  have "lookup (ovrs ([?rt] ! 0)) ''KR'' = Num (player_ovr ?e ([exampleRatings] ! 0) (Some ''KR''))"
    by (simp add: exampleEnv_def)
  then have "lookup (ovrs ?rt) ''KR'' = Num 99" by (simp add: exampleEnv_def bound_def)
  with a b c d s show ?thesis by simp
qed

subsection \<open>Bounds on what bootstrapPot estimates\<close>

lemma estimated_ge:
  "estimated e p w q \<Longrightarrow> (SPORT e = ''football'' \<longrightarrow> w \<le> 100) \<Longrightarrow> w \<le> q"
  by (auto simp: estimated_def)

lemma estimated_range:
  "estimated e p w q \<Longrightarrow> 0 \<le> w \<Longrightarrow> w \<le> 100 \<Longrightarrow>
   \<forall>rt s. 0 \<le> player_ovr e rt s \<and> player_ovr e rt s \<le> 100 \<Longrightarrow> 0 \<le> q \<and> q \<le> 100"
  by (auto simp: estimated_def)

subsection \<open>The player's own position\<close>

lemma develop_pos_basketball:
  assumes run: "develop e p years np cr skipPot h g = (Inr u, p', h', g')"
    and r: "last (p_ratings p) < length h"
    and loop: "developLoop e (last (p_ratings p)) np years cr 0
                 (season (h ! last (p_ratings p)) - year (born p), p, h, g) = (age, p1, h1, g1)"
    and sport: "SPORT e = ''basketball''"
  shows "pos (h' ! last (p_ratings p)) =
           (case p_pos p of
              Some s \<Rightarrow> s
            | None \<Rightarrow> player_pos e ((h' ! last (p_ratings p))
                         \<lparr>pos := pos (h1 ! last (p_ratings p)), skills := skills (h1 ! last (p_ratings p))\<rparr>))"
proof -
  let ?r = "last (p_ratings p)"
  from develop_obj[OF run] loop sport obtain h2 g2 where
    rate: "rateBasketball e p1 ?r age skipPot h1 g1 = (Inr (), h2, g2)" and
    h': "h' = h2[?r := (h2 ! ?r)\<lparr>skills := skills_of e (h2 ! ?r)\<rparr>]"
    by auto
  have r1: "?r < length h1" using developLoop_heap_length[OF loop] r by simp
  have pp: "p_pos p1 = p_pos p" using developLoop_player[OF loop] by simp
  define w where "w = player_ovr e (h1 ! ?r) None"
  from rateBasketball_obj[OF rate r1] obtain v where
    r2: "?r < length h2" and
    obj: "h2 ! ?r = (h1 ! ?r)\<lparr>ovr := Num w, pot := v,
                      pos := (case p_pos p1 of Some s \<Rightarrow> s
                              | None \<Rightarrow> player_pos e ((h1 ! ?r)\<lparr>ovr := Num w, pot := v\<rparr>))\<rparr>"
    unfolding w_def by blast
  have undo: "(h' ! ?r)\<lparr>pos := pos (h1 ! ?r), skills := skills (h1 ! ?r)\<rparr> = (h1 ! ?r)\<lparr>ovr := Num w, pot := v\<rparr>"
    using r2 obj by (simp add: h')
  have "pos (h' ! ?r) = (case p_pos p of Some s \<Rightarrow> s
                          | None \<Rightarrow> player_pos e ((h1 ! ?r)\<lparr>ovr := Num w, pot := v\<rparr>))"
    using r2 obj pp by (simp add: h')
  with undo show ?thesis by (simp split: option.split)
qed

text \<open>
  Claim C9, as the code has it. \<^verbatim>\<open>develop\<close> tests only that the player's own
  position is a string. Every string is applied as it is, the empty string included;
  the computed position (the strategy's in the basketball build, the primary position
  elsewhere) is used only when the player has no position of its own.
\<close>

theorem develop_position_override:
  assumes run: "develop e p years np cr skipPot h g = (Inr u, p', h', g')"
    and r: "r = last (p_ratings p)" "r < length h"
  shows "(\<forall>s. p_pos p = Some s \<longrightarrow> pos (h' ! r) = s) \<and>
         (p_pos p = None \<longrightarrow>
            (if SPORT e = ''basketball''
             then (\<exists>x y. pos (h' ! r) = player_pos e ((h' ! r)\<lparr>pos := x, skills := y\<rparr>))
             else pos (h' ! r) \<in> set (POSITIONS e) \<and> pos (h' ! r) \<noteq> ''KR'' \<and> pos (h' ! r) \<noteq> ''PR''))"
proof -
  obtain age p1 h1 g1 where
    loop: "developLoop e (last (p_ratings p)) np years cr 0
             (season (h ! last (p_ratings p)) - year (born p), p, h, g) = (age, p1, h1, g1)"
    by (cases "developLoop e (last (p_ratings p)) np years cr 0
             (season (h ! last (p_ratings p)) - year (born p), p, h, g)") auto
  show ?thesis
  proof (cases "SPORT e = ''basketball''")
    case True
    from develop_pos_basketball[OF run r(2)[unfolded r(1)] loop True] True
    show ?thesis unfolding r(1) by (auto split: option.splits)
  next
    case False
    obtain ovrs1 pos1 max1 where
      red: "ovrsReduce e (h1 ! last (p_ratings p)) (POSITIONS e) ([], None, None) = (ovrs1, pos1, max1)"
      by (cases "ovrsReduce e (h1 ! last (p_ratings p)) (POSITIONS e) ([], None, None)") auto
    from develop_values_positions[OF run r(2)[unfolded r(1)] loop False red]
    obtain s1 where "s1 \<in> set (POSITIONS e)" "s1 \<notin> set bannedPositions"
      "pos (h' ! r) = (case p_pos p of Some s \<Rightarrow> s | None \<Rightarrow> s1)"
      unfolding r(1) by auto
    with False show ?thesis by (auto simp: bannedPositions_def split: option.splits)
  qed
qed

theorem develop_position_override_witness:
  "develop (exampleEnv ''football'' [''QB'', ''RB'', ''KR'']) (examplePlayer\<lparr>p_pos := Some ''RB''\<rparr>)
       1 False 15.5 False [exampleRatings] 0
     = (Inr (), examplePlayer\<lparr>p_pos := Some ''RB'', weight := 210\<rparr>,
        [exampleRatings\<lparr>ovr := Num 50, pot := Num 75,
           ovrs := [(''QB'', Num 50), (''RB'', Num 40), (''KR'', Num 99)],
           pots := [(''QB'', Num 75), (''RB'', Num 60), (''KR'', Num 100)], pos := ''RB''\<rparr>], 5) \<and>
   (0 :: nat) = last (p_ratings (examplePlayer\<lparr>p_pos := Some ''RB''\<rparr>)) \<and>
   (0 :: nat) < length [exampleRatings] \<and>
   pos (exampleRatings\<lparr>ovr := Num 50, pot := Num 75,
           ovrs := [(''QB'', Num 50), (''RB'', Num 40), (''KR'', Num 99)],
           pots := [(''QB'', Num 75), (''RB'', Num 60), (''KR'', Num 100)], pos := ''RB''\<rparr>) = ''RB''"
proof -
  let ?e = "exampleEnv ''football'' [''QB'', ''RB'', ''KR'']"
  let ?rt = "exampleRatings\<lparr>ovr := Num 50, pot := Num 75,
           ovrs := [(''QB'', Num 50), (''RB'', Num 40), (''KR'', Num 99)],
           pots := [(''QB'', Num 75), (''RB'', Num 60), (''KR'', Num 100)], pos := ''RB''\<rparr>"
  have a: "develop ?e (examplePlayer\<lparr>p_pos := Some ''RB''\<rparr>) 1 False 15.5 False [exampleRatings] 0
     = (Inr (), examplePlayer\<lparr>p_pos := Some ''RB'', weight := 210\<rparr>, [?rt], 5)"
    by (simp add: example_simps floor_numeral_divide)
  have b: "(0 :: nat) = last (p_ratings (examplePlayer\<lparr>p_pos := Some ''RB''\<rparr>))"
    by (simp add: examplePlayer_def)
  have c: "(0 :: nat) < length [exampleRatings]" by simp
  from develop_position_override[OF a b c] have "pos ([?rt] ! 0) = ''RB''"
    by (simp add: examplePlayer_def)
  with a b c show ?thesis by simp
qed

text \<open>
  Claim C9 as stated fails: a player whose own position is the empty string gets the
  empty string as position, where the primary position would have been \<^verbatim>\<open>QB\<close>.
\<close>

theorem develop_empty_override_counterexample:
  "fst (develop (exampleEnv ''football'' [''QB'', ''RB'', ''KR'']) (examplePlayer\<lparr>p_pos := Some ''''\<rparr>)
          1 False 15.5 False [exampleRatings] 0) = Inr () \<and>
   pos (fst (snd (snd (develop (exampleEnv ''football'' [''QB'', ''RB'', ''KR''])
          (examplePlayer\<lparr>p_pos := Some ''''\<rparr>) 1 False 15.5 False [exampleRatings] 0))) ! 0) = '''' \<and>
   pos (fst (snd (snd (develop (exampleEnv ''football'' [''QB'', ''RB'', ''KR''])
          (examplePlayer\<lparr>p_pos := None\<rparr>) 1 False 15.5 False [exampleRatings] 0))) ! 0) = ''QB''"
  by (simp add: example_simps floor_numeral_divide)

subsection \<open>Potential against overall, and the range of both\<close>

text \<open>Overall and potential after a development that computes the potential.\<close>

lemma develop_estimated:
  assumes run: "develop e p years np cr False h g = (Inr u, p', h', g')"
    and r: "r = last (p_ratings p)" "r < length h"
    and ne: "SPORT e \<noteq> ''basketball'' \<longrightarrow> [] \<notin> set (POSITIONS e)"
    and inh: "SPORT e = ''football'' \<longrightarrow> set (POSITIONS e) \<inter> set objectPrototypeKeys = {}"
  shows "(\<exists>w q s. ovr (h' ! r) = Num w \<and> pot (h' ! r) = Num q \<and> estimated e s w q \<and>
            (\<exists>rt. w = player_ovr e rt s)) \<and>
         (SPORT e \<noteq> ''basketball'' \<longrightarrow>
            (\<forall>s \<in> set (POSITIONS e). \<exists>w q. lookup (ovrs (h' ! r)) s = Num w \<and>
                lookup (pots (h' ! r)) s = Num q \<and> estimated e (Some s) w q \<and>
                (\<exists>rt. w = player_ovr e rt (Some s))))"
proof -
  obtain age p1 h1 g1 where
    loop: "developLoop e (last (p_ratings p)) np years cr 0
             (season (h ! last (p_ratings p)) - year (born p), p, h, g) = (age, p1, h1, g1)"
    by (cases "developLoop e (last (p_ratings p)) np years cr 0
             (season (h ! last (p_ratings p)) - year (born p), p, h, g)") auto
  show ?thesis
  proof (cases "SPORT e = ''basketball''")
    case True
    from develop_values_basketball[OF run r(2)[unfolded r(1)] loop True] True
    show ?thesis unfolding r(1) by auto
  next
    case False
    obtain ovrs1 pos1 max1 where
      red: "ovrsReduce e (h1 ! last (p_ratings p)) (POSITIONS e) ([], None, None) = (ovrs1, pos1, max1)"
      by (cases "ovrsReduce e (h1 ! last (p_ratings p)) (POSITIONS e) ([], None, None)") auto
    from develop_values_positions[OF run r(2)[unfolded r(1)] loop False red] False ne inh
    obtain s1 where s1: "s1 \<in> set (POSITIONS e)" "ovrs (h' ! r) = ovrs1"
      "ovr (h' ! r) = lookup ovrs1 s1" "pot (h' ! r) = lookup (pots (h' ! r)) s1"
      and each: "\<forall>q \<in> set (POSITIONS e). \<exists>v. lookup (pots (h' ! r)) q = Num v \<and>
                   estimated e (Some q) (player_ovr e (h1 ! r) (Some q)) v"
      unfolding r(1) by auto
    have all: "\<forall>s \<in> set (POSITIONS e). \<exists>w q. lookup (ovrs (h' ! r)) s = Num w \<and>
                lookup (pots (h' ! r)) s = Num q \<and> estimated e (Some s) w q \<and>
                (\<exists>rt. w = player_ovr e rt (Some s))"
    proof
      fix s assume s: "s \<in> set (POSITIONS e)"
      from each s obtain v where v: "lookup (pots (h' ! r)) s = Num v"
        "estimated e (Some s) (player_ovr e (h1 ! r) (Some s)) v" by blast
      have "lookup (ovrs (h' ! r)) s = Num (player_ovr e (h1 ! r) (Some s))"
        using lookup_ovrsReduce[OF red s] s1(2) by (simp add: r(1))
      with v show "\<exists>w q. lookup (ovrs (h' ! r)) s = Num w \<and>
                lookup (pots (h' ! r)) s = Num q \<and> estimated e (Some s) w q \<and>
                (\<exists>rt. w = player_ovr e rt (Some s))" by blast
    qed
    from all s1(1) obtain w q where "lookup (ovrs (h' ! r)) s1 = Num w"
      "lookup (pots (h' ! r)) s1 = Num q" "estimated e (Some s1) w q" "\<exists>rt. w = player_ovr e rt (Some s1)"
      by blast
    with s1 have "\<exists>w q s. ovr (h' ! r) = Num w \<and> pot (h' ! r) = Num q \<and> estimated e s w q \<and>
            (\<exists>rt. w = player_ovr e rt s)" by auto
    with all show ?thesis by simp
  qed
qed

text \<open>
  Claim C1, as the code has it. Whenever the potential is computed, it is not below the
  overall it is computed from, as long as, in the football build, that overall is at
  most 100 (the regression value is clamped to 100) and the position is not a name
  that the coefficient table inherits. For \<^verbatim>\<open>bootstrapPot\<close>: if the current
  overall (\<^verbatim>\<open>ratings.ovrs[pos]\<close> or \<^verbatim>\<open>ratings.ovr\<close>) is the number \<open>w\<close>,
  the result is a number that is at least \<open>w\<close>. For \<^verbatim>\<open>develop\<close> called with
  \<open>skipPot\<close> false, with a strategy whose overalls are at most 100 in the football
  build and with such position codes, none of them empty: the stored potential is at
  least the stored overall, and so is the potential of every position against the
  overall of that position.
\<close>

theorem potential_not_below_overall:
  "(a < length hb \<and> bootstrapPot e a ageb pb hb gb = (Inr v, hb', gb') \<and>
    ovrOf (hb ! a) pb = Num w \<and>
    (SPORT e = ''football'' \<longrightarrow> w \<le> 100 \<and> pb \<notin> Some ` set objectPrototypeKeys)
      \<longrightarrow> (\<exists>q. v = Num q \<and> w \<le> q)) \<and>
   (develop e p years np cr False h g = (Inr u, p', h', g') \<and>
    r = last (p_ratings p) \<and> r < length h \<and>
    (SPORT e = ''football'' \<longrightarrow>
       (\<forall>rt s. player_ovr e rt s \<le> 100) \<and> set (POSITIONS e) \<inter> set objectPrototypeKeys = {}) \<and>
    (SPORT e \<noteq> ''basketball'' \<longrightarrow> [] \<notin> set (POSITIONS e))
      \<longrightarrow> (\<exists>w q. ovr (h' ! r) = Num w \<and> pot (h' ! r) = Num q \<and> w \<le> q) \<and>
          (SPORT e \<noteq> ''basketball'' \<longrightarrow>
             (\<forall>s \<in> set (POSITIONS e). \<exists>w q. lookup (ovrs (h' ! r)) s = Num w \<and>
                 lookup (pots (h' ! r)) s = Num q \<and> w \<le> q)))"
proof (intro conjI impI)
  assume A: "a < length hb \<and> bootstrapPot e a ageb pb hb gb = (Inr v, hb', gb') \<and>
    ovrOf (hb ! a) pb = Num w \<and>
    (SPORT e = ''football'' \<longrightarrow> w \<le> 100 \<and> pb \<notin> Some ` set objectPrototypeKeys)"
  then obtain q where "v = Num q" "estimated e pb w q"
    using bootstrapPot_estimated[of a hb e ageb pb gb v hb' gb' w] by blast
  with A estimated_ge[of e pb w q] show "\<exists>q. v = Num q \<and> w \<le> q" by simp
next
  assume B: "develop e p years np cr False h g = (Inr u, p', h', g') \<and>
    r = last (p_ratings p) \<and> r < length h \<and>
    (SPORT e = ''football'' \<longrightarrow>
       (\<forall>rt s. player_ovr e rt s \<le> 100) \<and> set (POSITIONS e) \<inter> set objectPrototypeKeys = {}) \<and>
    (SPORT e \<noteq> ''basketball'' \<longrightarrow> [] \<notin> set (POSITIONS e))"
  then have run: "develop e p years np cr False h g = (Inr u, p', h', g')"
    and r: "r = last (p_ratings p)" "r < length h"
    and le: "SPORT e = ''football'' \<longrightarrow> (\<forall>rt s. player_ovr e rt s \<le> 100)"
    and inh: "SPORT e = ''football'' \<longrightarrow> set (POSITIONS e) \<inter> set objectPrototypeKeys = {}"
    and ne: "SPORT e \<noteq> ''basketball'' \<longrightarrow> [] \<notin> set (POSITIONS e)"
    by blast+
  note est = develop_estimated[OF run r ne inh]
  from est obtain w q s where "ovr (h' ! r) = Num w" "pot (h' ! r) = Num q" "estimated e s w q"
    "\<exists>rt. w = player_ovr e rt s" by blast
  with le estimated_ge[of e s w q] show "\<exists>w q. ovr (h' ! r) = Num w \<and> pot (h' ! r) = Num q \<and> w \<le> q"
    by auto
  assume sport: "SPORT e \<noteq> ''basketball''"
  show "\<forall>s \<in> set (POSITIONS e). \<exists>w q. lookup (ovrs (h' ! r)) s = Num w \<and>
                 lookup (pots (h' ! r)) s = Num q \<and> w \<le> q"
  proof
    fix s assume "s \<in> set (POSITIONS e)"
    with est sport obtain w q where "lookup (ovrs (h' ! r)) s = Num w"
      "lookup (pots (h' ! r)) s = Num q" "estimated e (Some s) w q" "\<exists>rt. w = player_ovr e rt (Some s)"
      by blast
    with le estimated_ge[of e "Some s" w q]
    show "\<exists>w q. lookup (ovrs (h' ! r)) s = Num w \<and> lookup (pots (h' ! r)) s = Num q \<and> w \<le> q"
      by auto
  qed
qed

theorem potential_not_below_overall_witness:
  "(0 :: nat) < length [exampleRatings] \<and>
   bootstrapPot (exampleEnv ''football'' []) 0 20 (Some ''QB'') [exampleRatings] 0
     = (Inr (Num 73), [exampleRatings], 1) \<and>
   ovrOf ([exampleRatings] ! 0) (Some ''QB'') = Num 50 \<and> (50 :: int) \<le> 100 \<and>
   Some ''QB'' \<notin> Some ` set objectPrototypeKeys \<and> (50 :: int) \<le> 73 \<and>
   develop (exampleEnv ''football'' [''QB'', ''RB'', ''KR'']) examplePlayer 1 False 15.5 False [exampleRatings] 0
     = (Inr (), examplePlayer\<lparr>weight := 210\<rparr>,
        [exampleRatings\<lparr>ovr := Num 50, pot := Num 75,
           ovrs := [(''QB'', Num 50), (''RB'', Num 40), (''KR'', Num 99)],
           pots := [(''QB'', Num 75), (''RB'', Num 60), (''KR'', Num 100)], pos := ''QB''\<rparr>], 5) \<and>
   (0 :: nat) = last (p_ratings examplePlayer) \<and>
   (\<forall>rt s. player_ovr (exampleEnv ''football'' [''QB'', ''RB'', ''KR'']) rt s \<le> 100) \<and>
   set (POSITIONS (exampleEnv ''football'' [''QB'', ''RB'', ''KR''])) \<inter> set objectPrototypeKeys = {} \<and>
   [] \<notin> set (POSITIONS (exampleEnv ''football'' [''QB'', ''RB'', ''KR'']))"
proof -
  let ?e = "exampleEnv ''football'' [''QB'', ''RB'', ''KR'']"
  let ?rt = "exampleRatings\<lparr>ovr := Num 50, pot := Num 75,
           ovrs := [(''QB'', Num 50), (''RB'', Num 40), (''KR'', Num 99)],
           pots := [(''QB'', Num 75), (''RB'', Num 60), (''KR'', Num 100)], pos := ''QB''\<rparr>"
  have a: "bootstrapPot (exampleEnv ''football'' []) 0 20 (Some ''QB'') [exampleRatings] 0
     = (Inr (Num 73), [exampleRatings], 1)"
    by (simp add: example_simps floor_numeral_divide)
  have b: "ovrOf ([exampleRatings] ! 0) (Some ''QB'') = Num 50"
    by (simp add: ovrOf_def lookup_def exampleRatings_def)
  have c: "develop ?e examplePlayer 1 False 15.5 False [exampleRatings] 0
     = (Inr (), examplePlayer\<lparr>weight := 210\<rparr>, [?rt], 5)"
    by (simp add: example_simps floor_numeral_divide)
  have d: "(0 :: nat) = last (p_ratings examplePlayer)" by (simp add: examplePlayer_def)
  have f: "\<forall>rt s. player_ovr ?e rt s \<le> 100" by (simp add: exampleEnv_def bound_def)
  have n: "[] \<notin> set (POSITIONS ?e)" by (simp add: exampleEnv_def)
  have i: "set (POSITIONS ?e) \<inter> set objectPrototypeKeys = {}"
    by (simp add: exampleEnv_def objectPrototypeKeys_def)
  have k: "Some ''QB'' \<notin> Some ` set objectPrototypeKeys" by (simp add: objectPrototypeKeys_def)
  from potential_not_below_overall[of 0 "[exampleRatings]" "exampleEnv ''football'' []" 20 "Some ''QB''" 0
      "Num 73" "[exampleRatings]" 1 50]
    a b k have "\<exists>q. Num 73 = Num q \<and> (50 :: int) \<le> q" by simp
  then have g: "(50 :: int) \<le> 73" by simp
  from potential_not_below_overall[of _ _ ?e _ _ _ _ _ _ _ examplePlayer 1 False "15.5" "[exampleRatings]" 0
      "()" "examplePlayer\<lparr>weight := 210\<rparr>" "[?rt]" 5 0]
    c d f n i have "\<exists>w q. ovr ([?rt] ! 0) = Num w \<and> pot ([?rt] ! 0) = Num q \<and> w \<le> q" by simp
  with a b c d f n i k g show ?thesis by simp
qed

text \<open>
  Claim C1 as stated fails for a development with \<open>skipPot\<close> set: three seasons take
  the overall at \<^verbatim>\<open>QB\<close> from 50 to 57, while the potential that \<^verbatim>\<open>develop\<close>
  stores is the one found in \<^verbatim>\<open>ratings.pots\<close>, 55.
\<close>

theorem develop_skipPot_counterexample:
  "develop (exampleEnv ''football'' [''QB'', ''RB'']) examplePlayer 3 False 15.5 True [exampleRatings] 3
     = (Inr (), examplePlayer\<lparr>weight := 230\<rparr>,
        [exampleRatings\<lparr>hgt := 57, ovr := Num 57, pot := Num 55,
           ovrs := [(''QB'', Num 57), (''RB'', Num 40)]\<rparr>], 9) \<and>
   pot (exampleRatings\<lparr>hgt := 57, ovr := Num 57, pot := Num 55,
           ovrs := [(''QB'', Num 57), (''RB'', Num 40)]\<rparr>) = Num 55 \<and>
   ovr (exampleRatings\<lparr>hgt := 57, ovr := Num 57, pot := Num 55,
           ovrs := [(''QB'', Num 57), (''RB'', Num 40)]\<rparr>) = Num 57 \<and> (55 :: int) < 57"
  by (simp add: example_simps)

text \<open>
  Claim C3, as the code has it. Let every overall that the strategy computes be an
  integer from 0 to 100, and let no position be a name that the coefficient table
  inherits in the football build. Then \<^verbatim>\<open>bootstrapPot\<close>, called on ratings whose
  stored current overall is a number from 0 to 100, returns a number from 0 to 100.
  After a successful \<^verbatim>\<open>develop\<close> (no position code being empty),
  \<^verbatim>\<open>ratings.ovr\<close> and every entry of \<^verbatim>\<open>ratings.ovrs\<close> for a position are
  numbers from 0 to 100, and unless \<open>skipPot\<close> is set so are \<^verbatim>\<open>ratings.pot\<close>
  and every entry of \<^verbatim>\<open>ratings.pots\<close> for a position. With \<open>skipPot\<close> set no
  potential is computed and none is bounded: the potentials are those that the ratings
  held after the seasons loop (\<open>h1 ! r\<close>).
\<close>

theorem values_in_range:
  assumes strat: "\<forall>rt s. 0 \<le> player_ovr e rt s \<and> player_ovr e rt s \<le> 100"
  shows
  "(a < length hb \<and> bootstrapPot e a ageb pb hb gb = (Inr v, hb', gb') \<and>
    ovrOf (hb ! a) pb = Num w \<and> 0 \<le> w \<and> w \<le> 100 \<and>
    (SPORT e = ''football'' \<longrightarrow> pb \<notin> Some ` set objectPrototypeKeys)
      \<longrightarrow> (\<exists>q. v = Num q \<and> 0 \<le> q \<and> q \<le> 100)) \<and>
   (develop e p years np cr skipPot h g = (Inr u, p', h', g') \<and>
    r = last (p_ratings p) \<and> r < length h \<and>
    developLoop e r np years cr 0 (season (h ! r) - year (born p), p, h, g) = (age, p1, h1, g1) \<and>
    (SPORT e \<noteq> ''basketball'' \<longrightarrow> [] \<notin> set (POSITIONS e)) \<and>
    (SPORT e = ''football'' \<longrightarrow> set (POSITIONS e) \<inter> set objectPrototypeKeys = {})
      \<longrightarrow> (\<exists>w. ovr (h' ! r) = Num w \<and> 0 \<le> w \<and> w \<le> 100) \<and>
          (SPORT e \<noteq> ''basketball'' \<longrightarrow>
             (\<forall>s \<in> set (POSITIONS e). \<exists>w. lookup (ovrs (h' ! r)) s = Num w \<and> 0 \<le> w \<and> w \<le> 100)) \<and>
          (if skipPot
           then (if SPORT e = ''basketball'' then pot (h' ! r) = pot (h1 ! r)
                 else pots (h' ! r) = pots (h1 ! r) \<and>
                      (\<exists>s \<in> set (POSITIONS e). pot (h' ! r) = lookup (pots (h1 ! r)) s))
           else (\<exists>q. pot (h' ! r) = Num q \<and> 0 \<le> q \<and> q \<le> 100) \<and>
                (SPORT e \<noteq> ''basketball'' \<longrightarrow>
                   (\<forall>s \<in> set (POSITIONS e). \<exists>q. lookup (pots (h' ! r)) s = Num q \<and> 0 \<le> q \<and> q \<le> 100))))"
proof (intro conjI impI)
  assume A: "a < length hb \<and> bootstrapPot e a ageb pb hb gb = (Inr v, hb', gb') \<and>
    ovrOf (hb ! a) pb = Num w \<and> 0 \<le> w \<and> w \<le> 100 \<and>
    (SPORT e = ''football'' \<longrightarrow> pb \<notin> Some ` set objectPrototypeKeys)"
  then obtain q where "v = Num q" "estimated e pb w q"
    using bootstrapPot_estimated[of a hb e ageb pb gb v hb' gb' w] by blast
  with A estimated_range[OF _ _ _ strat, of pb w q] show "\<exists>q. v = Num q \<and> 0 \<le> q \<and> q \<le> 100" by simp
next
  assume B: "develop e p years np cr skipPot h g = (Inr u, p', h', g') \<and>
    r = last (p_ratings p) \<and> r < length h \<and>
    developLoop e r np years cr 0 (season (h ! r) - year (born p), p, h, g) = (age, p1, h1, g1) \<and>
    (SPORT e \<noteq> ''basketball'' \<longrightarrow> [] \<notin> set (POSITIONS e)) \<and>
    (SPORT e = ''football'' \<longrightarrow> set (POSITIONS e) \<inter> set objectPrototypeKeys = {})"
  then have run: "develop e p years np cr skipPot h g = (Inr u, p', h', g')"
    and r: "r = last (p_ratings p)" "r < length h"
    and loop0: "developLoop e r np years cr 0 (season (h ! r) - year (born p), p, h, g) = (age, p1, h1, g1)"
    and ne: "SPORT e \<noteq> ''basketball'' \<longrightarrow> [] \<notin> set (POSITIONS e)"
    and inh: "SPORT e = ''football'' \<longrightarrow> set (POSITIONS e) \<inter> set objectPrototypeKeys = {}"
    by blast+
  note loop = loop0[unfolded r(1)]
  obtain ovrs1 pos1 max1 where
    red: "ovrsReduce e (h1 ! last (p_ratings p)) (POSITIONS e) ([], None, None) = (ovrs1, pos1, max1)"
    by (cases "ovrsReduce e (h1 ! last (p_ratings p)) (POSITIONS e) ([], None, None)") auto
  note bb = develop_values_basketball[OF run r(2)[unfolded r(1)] loop, folded r(1)]
  note pp = develop_values_positions[OF run r(2)[unfolded r(1)] loop _ red, folded r(1)]
  have ovrs_ok: "\<forall>s \<in> set (POSITIONS e). \<exists>w. lookup (ovrs (h' ! r)) s = Num w \<and> 0 \<le> w \<and> w \<le> 100"
    if sport: "SPORT e \<noteq> ''basketball''"
  proof
    fix s assume s: "s \<in> set (POSITIONS e)"
    from pp[OF sport] have "ovrs (h' ! r) = ovrs1" by auto
    with lookup_ovrsReduce[OF red s] strat
    show "\<exists>w. lookup (ovrs (h' ! r)) s = Num w \<and> 0 \<le> w \<and> w \<le> 100" by simp
  qed
  show "\<exists>w. ovr (h' ! r) = Num w \<and> 0 \<le> w \<and> w \<le> 100"
  proof (cases "SPORT e = ''basketball''")
    case True
    from bb[OF True] strat show ?thesis by simp
  next
    case False
    from pp[OF False] obtain s1 where "s1 \<in> set (POSITIONS e)" "ovrs (h' ! r) = ovrs1"
      "ovr (h' ! r) = lookup ovrs1 s1" by auto
    with ovrs_ok[OF False] show ?thesis by auto
  qed
  show "\<forall>s \<in> set (POSITIONS e). \<exists>w. lookup (ovrs (h' ! r)) s = Num w \<and> 0 \<le> w \<and> w \<le> 100"
    if "SPORT e \<noteq> ''basketball''" using ovrs_ok[OF that] .
  show "if skipPot
           then (if SPORT e = ''basketball'' then pot (h' ! r) = pot (h1 ! r)
                 else pots (h' ! r) = pots (h1 ! r) \<and>
                      (\<exists>s \<in> set (POSITIONS e). pot (h' ! r) = lookup (pots (h1 ! r)) s))
           else (\<exists>q. pot (h' ! r) = Num q \<and> 0 \<le> q \<and> q \<le> 100) \<and>
                (SPORT e \<noteq> ''basketball'' \<longrightarrow>
                   (\<forall>s \<in> set (POSITIONS e). \<exists>q. lookup (pots (h' ! r)) s = Num q \<and> 0 \<le> q \<and> q \<le> 100))"
  proof (cases skipPot)
    case True
    show ?thesis
    proof (cases "SPORT e = ''basketball''")
      case sport: True
      from bb[OF sport] True sport show ?thesis by simp
    next
      case sport: False
      from pp[OF sport] True obtain s1 where "s1 \<in> set (POSITIONS e)"
        "pot (h' ! r) = lookup (pots (h' ! r)) s1" "pots (h' ! r) = pots (h1 ! r)" by auto
      with True sport show ?thesis by auto
    qed
  next
    case False
    with run have run': "develop e p years np cr False h g = (Inr u, p', h', g')" by simp
    note est = develop_estimated[OF run' r ne inh]
    from est obtain w q s where "pot (h' ! r) = Num q" "estimated e s w q" "\<exists>rt. w = player_ovr e rt s"
      by blast
    with strat estimated_range[OF _ _ _ strat, of s w q]
    have one: "\<exists>q. pot (h' ! r) = Num q \<and> 0 \<le> q \<and> q \<le> 100" by auto
    have many: "\<forall>s \<in> set (POSITIONS e). \<exists>q. lookup (pots (h' ! r)) s = Num q \<and> 0 \<le> q \<and> q \<le> 100"
      if sport: "SPORT e \<noteq> ''basketball''"
    proof
      fix s assume "s \<in> set (POSITIONS e)"
      with est sport obtain w q where "lookup (pots (h' ! r)) s = Num q" "estimated e (Some s) w q"
        "\<exists>rt. w = player_ovr e rt (Some s)" by blast
      with strat estimated_range[OF _ _ _ strat, of "Some s" w q]
      show "\<exists>q. lookup (pots (h' ! r)) s = Num q \<and> 0 \<le> q \<and> q \<le> 100" by auto
    qed
    from False one many show ?thesis by simp
  qed
qed


theorem values_in_range_witness:
  "(\<forall>rt s. 0 \<le> player_ovr (exampleEnv ''football'' [''QB'', ''RB'', ''KR'']) rt s \<and>
            player_ovr (exampleEnv ''football'' [''QB'', ''RB'', ''KR'']) rt s \<le> 100) \<and>
   (0 :: nat) < length [exampleRatings] \<and>
   bootstrapPot (exampleEnv ''football'' [''QB'', ''RB'', ''KR'']) 0 20 (Some ''QB'') [exampleRatings] 0
     = (Inr (Num 73), [exampleRatings], 1) \<and>
   ovrOf ([exampleRatings] ! 0) (Some ''QB'') = Num 50 \<and>
   Some ''QB'' \<notin> Some ` set objectPrototypeKeys \<and> (0 :: int) \<le> 73 \<and> (73 :: int) \<le> 100 \<and>
   develop (exampleEnv ''football'' [''QB'', ''RB'', ''KR'']) examplePlayer 1 False 15.5 False [exampleRatings] 0
     = (Inr (), examplePlayer\<lparr>weight := 210\<rparr>,
        [exampleRatings\<lparr>ovr := Num 50, pot := Num 75,
           ovrs := [(''QB'', Num 50), (''RB'', Num 40), (''KR'', Num 99)],
           pots := [(''QB'', Num 75), (''RB'', Num 60), (''KR'', Num 100)], pos := ''QB''\<rparr>], 5) \<and>
   (0 :: nat) = last (p_ratings examplePlayer) \<and>
   developLoop (exampleEnv ''football'' [''QB'', ''RB'', ''KR'']) 0 False 1 15.5 0
       (season ([exampleRatings] ! 0) - year (born examplePlayer), examplePlayer, [exampleRatings], 0)
     = (20, examplePlayer\<lparr>weight := 210\<rparr>, [exampleRatings], 2) \<and>
   [] \<notin> set (POSITIONS (exampleEnv ''football'' [''QB'', ''RB'', ''KR''])) \<and>
   set (POSITIONS (exampleEnv ''football'' [''QB'', ''RB'', ''KR''])) \<inter> set objectPrototypeKeys = {}"
proof -
  let ?e = "exampleEnv ''football'' [''QB'', ''RB'', ''KR'']"
  let ?rt = "exampleRatings\<lparr>ovr := Num 50, pot := Num 75,
           ovrs := [(''QB'', Num 50), (''RB'', Num 40), (''KR'', Num 99)],
           pots := [(''QB'', Num 75), (''RB'', Num 60), (''KR'', Num 100)], pos := ''QB''\<rparr>"
  have f: "\<forall>rt s. 0 \<le> player_ovr ?e rt s \<and> player_ovr ?e rt s \<le> 100"
    by (simp add: exampleEnv_def bound_def)
  have a: "bootstrapPot ?e 0 20 (Some ''QB'') [exampleRatings] 0 = (Inr (Num 73), [exampleRatings], 1)"
    by (simp add: example_simps floor_numeral_divide)
  have b: "ovrOf ([exampleRatings] ! 0) (Some ''QB'') = Num 50"
    by (simp add: ovrOf_def lookup_def exampleRatings_def)
  have c: "develop ?e examplePlayer 1 False 15.5 False [exampleRatings] 0
     = (Inr (), examplePlayer\<lparr>weight := 210\<rparr>, [?rt], 5)"
    by (simp add: example_simps floor_numeral_divide)
  have d: "(0 :: nat) = last (p_ratings examplePlayer)" by (simp add: examplePlayer_def)
  have l: "developLoop ?e 0 False 1 15.5 0
       (season ([exampleRatings] ! 0) - year (born examplePlayer), examplePlayer, [exampleRatings], 0)
     = (20, examplePlayer\<lparr>weight := 210\<rparr>, [exampleRatings], 2)"
    by (simp add: example_simps)
  have n: "[] \<notin> set (POSITIONS ?e)" by (simp add: exampleEnv_def)
  have i: "set (POSITIONS ?e) \<inter> set objectPrototypeKeys = {}"
    by (simp add: exampleEnv_def objectPrototypeKeys_def)
  have k: "Some ''QB'' \<notin> Some ` set objectPrototypeKeys" by (simp add: objectPrototypeKeys_def)
  note t = values_in_range[OF f, of 0 "[exampleRatings]" 20 "Some ''QB''" 0 "Num 73" "[exampleRatings]" 1 50
      examplePlayer 1 False "15.5" False "[exampleRatings]" 0 "()" "examplePlayer\<lparr>weight := 210\<rparr>" "[?rt]" 5 0
      20 "examplePlayer\<lparr>weight := 210\<rparr>" "[exampleRatings]" 2]
  from t a b k have "\<exists>q. Num 73 = Num q \<and> (0 :: int) \<le> q \<and> q \<le> 100" by simp
  then have g: "(0 :: int) \<le> 73 \<and> (73 :: int) \<le> 100" by simp
  from t c d l n i have "\<exists>w. ovr ([?rt] ! 0) = Num w \<and> 0 \<le> w \<and> w \<le> 100" by simp
  with f a b c d l n i k g show ?thesis by simp
qed

text \<open>
  Claim C3 as stated fails: the strategy of the example keeps every overall between 0
  and 100, but nothing clamps the overall already stored in the ratings. At age 29
  \<^verbatim>\<open>bootstrapPot\<close> returns a stored overall of 150 as it is; at age 28 in the
  football build the regression value for \<^verbatim>\<open>RB\<close> is below a stored 150, so
  150 is returned there too.
\<close>

theorem bootstrapPot_stored_overall_counterexample:
  "(\<forall>rt s. 0 \<le> player_ovr (exampleEnv ''football'' []) rt s \<and>
            player_ovr (exampleEnv ''football'' []) rt s \<le> 100) \<and>
   bootstrapPot (exampleEnv ''football'' []) 0 29 None [exampleRatings\<lparr>ovr := Num 150\<rparr>] 0
     = (Inr (Num 150), [exampleRatings\<lparr>ovr := Num 150\<rparr>], 0) \<and>
   bootstrapPot (exampleEnv ''football'' []) 0 28 (Some ''RB'')
       [exampleRatings\<lparr>ovrs := [(''RB'', Num 150)]\<rparr>] 0
     = (Inr (Num 150), [exampleRatings\<lparr>ovrs := [(''RB'', Num 150)]\<rparr>], 1) \<and>
   \<not> (150 :: int) \<le> 100"
  by (simp add: example_simps)

end
